theory Spec2Isabelle
  imports Main "HOL-Library.Word"
begin

section \<open>libflux: error objects, guard pool, scope stack and the TRY/CATCH protocol\<close>

text \<open>
  A shallow embedding of \<^verbatim>\<open>libflux.h\<close>. C identifiers keep their names, without the
  leading double underscore that Isabelle does not admit. A C \<^verbatim>\<open>char\<close> is a
  \<^typ>\<open>char\<close>, a \<^verbatim>\<open>char\<close> array is a list of fixed length, and a
  \<^verbatim>\<open>const char *\<close> argument is a \<^typ>\<open>string option\<close>: \<open>None\<close> is the null
  pointer, \<open>Some s\<close> the bytes found at the pointer, of which C reads the part before the
  first NUL.
\<close>

subsection \<open>Limits\<close>

definition FLUX_MAX_DEPTH :: int where
  "FLUX_MAX_DEPTH = 64"

definition FLUX_POOL_SIZE :: int where
  "FLUX_POOL_SIZE = 2048"

definition FLUX_ERROR_MSG_MAX :: nat where
  "FLUX_ERROR_MSG_MAX = 512"

subsection \<open>C strings\<close>

definition NUL :: char where
  "NUL = CHR 0x00"

text \<open>The string a \<^verbatim>\<open>char *\<close> denotes: the bytes before the first NUL.\<close>

definition cstr :: "string \<Rightarrow> string" where
  "cstr s = takeWhile (\<lambda>c. c \<noteq> NUL) s"

text \<open>
  \<^verbatim>\<open>strncpy(dst, src, n)\<close>: copies at most \<open>n\<close> bytes of the source string and pads
  with NUL up to \<open>n\<close> bytes written; the bytes of \<open>dst\<close> from \<open>n\<close> on are kept.
\<close>

definition strncpy :: "string \<Rightarrow> string \<Rightarrow> nat \<Rightarrow> string" where
  "strncpy dst src n =
     (let s = take n (cstr src)
      in s @ replicate (n - length s) NUL @ drop n dst)"

text \<open>
  \<^verbatim>\<open>strrchr(s, c)\<close> followed by \<^verbatim>\<open>+ 1\<close>: the part of the string after the last
  occurrence of \<open>c\<close>, or \<open>None\<close> when \<open>c\<close> does not occur.
\<close>

fun after_last :: "char \<Rightarrow> string \<Rightarrow> string option" where
  "after_last c [] = None"
| "after_last c (x # xs) =
     (case after_last c xs of
        Some r \<Rightarrow> Some r
      | None \<Rightarrow> if x = c then Some xs else None)"

subsection \<open>Decimal rendering of \<^verbatim>\<open>%d\<close>\<close>

definition digit_char :: "nat \<Rightarrow> char" where
  "digit_char d = ''0123456789'' ! d"

fun dec_nat :: "nat \<Rightarrow> string" where
  "dec_nat n = (if n < 10 then [digit_char n] else dec_nat (n div 10) @ [digit_char (n mod 10)])"

declare dec_nat.simps [simp del]

definition dec_int :: "int \<Rightarrow> string" where
  "dec_int i = (if i < 0 then CHR ''-'' # dec_nat (nat (- i)) else dec_nat (nat i))"

subsection \<open>Error object\<close>

record flux_error =
  code :: "32 word"
  msg :: string
  file' :: string
  line :: int

definition zero_error :: flux_error where
  "zero_error = \<lparr>code = 0, msg = replicate 512 NUL, file' = replicate 64 NUL, line = 0\<rparr>"

definition flux_make_error :: "32 word \<Rightarrow> string option \<Rightarrow> string option \<Rightarrow> int \<Rightarrow> flux_error" where
  "flux_make_error c m f ln =
     (let e = zero_error;
          e = e\<lparr>code := c\<rparr>;
          e = (case m of
                 None \<Rightarrow> e
               | Some s \<Rightarrow>
                   (let e = e\<lparr>msg := strncpy (msg e) s (FLUX_ERROR_MSG_MAX - 1)\<rparr>
                    in e\<lparr>msg := (msg e)[FLUX_ERROR_MSG_MAX - 1 := NUL]\<rparr>));
          e = (case f of
                 None \<Rightarrow> e
               | Some p \<Rightarrow>
                   (let basename = after_last CHR ''/'' (cstr p);
                        basename = (case basename of None \<Rightarrow> after_last (CHR 0x5C) (cstr p) | Some b \<Rightarrow> Some b);
                        basename = (case basename of Some b \<Rightarrow> b | None \<Rightarrow> cstr p);
                        e = e\<lparr>file' := strncpy (file' e) basename (64 - 1)\<rparr>
                    in e\<lparr>file' := (file' e)[64 - 1 := NUL]\<rparr>))
      in e\<lparr>line := ln\<rparr>)"

text \<open>
  \<^verbatim>\<open>flux_error_print\<close> writes to \<^verbatim>\<open>stderr\<close>; the model appends to the bytes
  written so far. The format string starts with the four bytes of U+1F525 and a space.
\<close>

definition fire_prefix :: string where
  "fire_prefix = [CHR 0xF0, CHR 0x9F, CHR 0x94, CHR 0xA5, CHR '' '']"

definition flux_error_print :: "flux_error option \<Rightarrow> string \<Rightarrow> string" where
  "flux_error_print e out =
     (case e of
        None \<Rightarrow> out
      | Some e \<Rightarrow>
          if msg e ! 0 \<noteq> NUL
          then out @ fire_prefix @ ''['' @ cstr (file' e) @ '':'' @ dec_int (line e)
                 @ ''] ERR '' @ dec_int (sint (code e)) @ '': '' @ cstr (msg e) @ [CHR 0x0A]
          else out)"

subsection \<open>Guards, scope records, the guard pool and the thread registry\<close>

text \<open>
  A function pointer and a \<^verbatim>\<open>void *\<close> are addresses, \<open>0\<close> the null pointer. Every
  \<^verbatim>\<open>flux_guard_t *\<close> the library creates is the address of a pool slot (or null), so
  it is modelled as \<open>Some i\<close> for \<^verbatim>\<open>&pool->guards[i]\<close> and \<open>None\<close> for null: the
  pool array is the store through which guard lists are linked.

  A \<^verbatim>\<open>jmp_buf\<close> is modelled by whether \<^verbatim>\<open>setjmp\<close> has filled it.
\<close>

record flux_guard =
  dtor :: nat
  ptr :: nat
  next' :: "nat option"

record flux_scope =
  buf :: bool
  err :: flux_error
  guards :: "nat option"
  active :: bool

record flux_pool =
  pool_guards :: "flux_guard list"
  idx :: int

record flux_tls =
  stack :: "flux_scope list"
  top :: int
  pool :: flux_pool

text \<open>
  What one thread sees: the value of its thread-specific key, the bytes written to
  \<^verbatim>\<open>stderr\<close>, and the cleanup calls \<^verbatim>\<open>dtor(ptr)\<close> made so far, oldest first.
  The cleanup actions are external (\<^verbatim>\<open>free\<close>, \<^verbatim>\<open>fclose\<close>, \<^verbatim>\<open>close\<close>) and do not
  touch the registry.
\<close>

record flux_thread =
  tls :: "flux_tls option"
  stderr :: string
  calls :: "(nat \<times> nat) list"

definition zero_guard :: flux_guard where
  "zero_guard = \<lparr>dtor = 0, ptr = 0, next' = None\<rparr>"

definition zero_scope :: flux_scope where
  "zero_scope = \<lparr>buf = False, err = zero_error, guards = None, active = False\<rparr>"

text \<open>\<^verbatim>\<open>calloc(1, sizeof(flux_tls_t))\<close>: every field zero, so \<open>top\<close> is \<open>0\<close>.\<close>

definition calloc_tls :: flux_tls where
  "calloc_tls =
     \<lparr>stack = replicate 64 zero_scope, top = 0,
      pool = \<lparr>pool_guards = replicate 2048 zero_guard, idx = 0\<rparr>\<rparr>"

text \<open>
  \<^verbatim>\<open>__flux_get_tls\<close>: the registry of the thread, allocated on first use. Key creation
  and \<^verbatim>\<open>calloc\<close> are taken to succeed (their failure aborts before any state exists).
\<close>

definition flux_get_tls :: "flux_thread \<Rightarrow> flux_tls \<times> flux_thread" where
  "flux_get_tls th =
     (case tls th of
        None \<Rightarrow> (calloc_tls, th\<lparr>tls := Some calloc_tls\<rparr>)
      | Some t \<Rightarrow> (t, th))"

text \<open>A thread that has not used the library yet.\<close>

definition thread_start :: flux_thread where
  "thread_start = \<lparr>tls = None, stderr = [], calls = []\<rparr>"

definition flux_acquire_guard :: "flux_pool \<Rightarrow> nat option \<times> flux_pool" where
  "flux_acquire_guard p =
     (let i = idx p;
          p = p\<lparr>idx := idx p + 1\<rparr>
      in if i \<ge> FLUX_POOL_SIZE then (None, p\<lparr>idx := idx p - 1\<rparr>) else (Some (nat i), p))"

definition flux_reset_pool :: "flux_pool \<Rightarrow> flux_pool" where
  "flux_reset_pool p = p\<lparr>idx := 0\<rparr>"

text \<open>
  \<^verbatim>\<open>__flux_release_guards\<close> walks the list through the pool \<open>mem\<close>; the loop need not
  end (a list can be cyclic), so the result is optional. A call \<^verbatim>\<open>head->dtor(head->ptr)\<close>
  is recorded at the end of \<open>cs\<close>.
\<close>

partial_function (option) flux_release_guards ::
  "flux_guard list \<Rightarrow> nat option \<Rightarrow> (nat \<times> nat) list \<Rightarrow> (nat \<times> nat) list option" where
  "flux_release_guards mem head cs =
     (case head of
        None \<Rightarrow> Some cs
      | Some a \<Rightarrow>
          flux_release_guards mem (next' (mem ! a))
            (if dtor (mem ! a) \<noteq> 0 \<and> ptr (mem ! a) \<noteq> 0
             then cs @ [(dtor (mem ! a), ptr (mem ! a))] else cs))"

declare flux_release_guards.simps [code]

subsection \<open>The macros\<close>

text \<open>
  How a macro hands control on: it falls through to the next statement, it calls
  \<^verbatim>\<open>longjmp\<close> on the jump buffer of \<^verbatim>\<open>stack[top]\<close>, it calls \<^verbatim>\<open>abort\<close>, or its
  behaviour is undefined in C: an index outside \<^verbatim>\<open>stack[0..63]\<close>, or a \<^verbatim>\<open>longjmp\<close> on
  a buffer that no \<^verbatim>\<open>setjmp\<close> has filled.
\<close>

datatype control = Fallthrough | Longjmp | Abort | OutOfBounds | BadJmpBuf

definition set_scope :: "int \<Rightarrow> (flux_scope \<Rightarrow> flux_scope) \<Rightarrow> flux_tls \<Rightarrow> flux_tls" where
  "set_scope l f t = t\<lparr>stack := (stack t)[nat l := f (stack t ! nat l)]\<rparr>"

definition in_stack :: "int \<Rightarrow> bool" where
  "in_stack l = (0 \<le> l \<and> l < FLUX_MAX_DEPTH)"

text \<open>\<^verbatim>\<open>FLUX_THROW(code, msg)\<close> at \<^verbatim>\<open>__FILE__\<close> \<open>f\<close>, \<^verbatim>\<open>__LINE__\<close> \<open>ln\<close>.\<close>

definition FLUX_THROW ::
  "32 word \<Rightarrow> string option \<Rightarrow> string \<Rightarrow> int \<Rightarrow> flux_thread \<Rightarrow> control \<times> flux_thread" where
  "FLUX_THROW c m f ln th =
     (let (t, th) = flux_get_tls th
      in if top t \<ge> 0 \<and> top t < FLUX_MAX_DEPTH
         then (let t = set_scope (top t) (\<lambda>s. s\<lparr>err := flux_make_error c m (Some f) ln\<rparr>) t
               in (if buf (stack t ! nat (top t)) then Longjmp else BadJmpBuf,
                   th\<lparr>tls := Some t\<rparr>))
         else (let e = flux_make_error c m (Some f) ln
               in (Abort, th\<lparr>stderr := flux_error_print (Some e) (stderr th)\<rparr>)))"

definition FLUX_THROW_LIMIT :: "string \<Rightarrow> int \<Rightarrow> flux_thread \<Rightarrow> control \<times> flux_thread" where
  "FLUX_THROW_LIMIT f ln th = FLUX_THROW 5 (Some ''resource limit exceeded'') f ln th"

text \<open>
  \<^verbatim>\<open>FLUX_TRY\<close> up to the \<^verbatim>\<open>setjmp\<close> that returns \<open>0\<close>. The local \<^verbatim>\<open>__l\<close> is the
  \<open>top\<close> of the state returned.
\<close>

definition FLUX_TRY :: "flux_thread \<Rightarrow> control \<times> flux_thread" where
  "FLUX_TRY th =
     (let (t, th) = flux_get_tls th
      in if top t + 1 \<ge> FLUX_MAX_DEPTH then (Abort, th)
         else (let t = t\<lparr>top := top t + 1\<rparr>;
                   l = top t
               in if \<not> in_stack l then (OutOfBounds, th\<lparr>tls := Some t\<rparr>)
                  else (let t = set_scope l (\<lambda>s. s\<lparr>guards := None\<rparr>) t;
                            t = set_scope l (\<lambda>s. s\<lparr>active := True\<rparr>) t;
                            t = t\<lparr>pool := flux_reset_pool (pool t)\<rparr>;
                            t = set_scope l (\<lambda>s. s\<lparr>buf := True\<rparr>) t
                        in (Fallthrough, th\<lparr>tls := Some t\<rparr>))))"

text \<open>
  The two branches of \<^verbatim>\<open>FLUX_CATCH(e)\<close>, for the block whose \<^verbatim>\<open>__l\<close> is \<open>l\<close>: the end
  of the \<^verbatim>\<open>setjmp == 0\<close> branch, and the start of the \<^verbatim>\<open>else\<close> branch that a
  \<^verbatim>\<open>longjmp\<close> reaches. \<^verbatim>\<open>__tls\<close> is the pointer \<^verbatim>\<open>FLUX_TRY\<close> obtained.
\<close>

definition FLUX_CATCH_exit :: "int \<Rightarrow> flux_thread \<Rightarrow> flux_thread" where
  "FLUX_CATCH_exit l th =
     (case tls th of
        None \<Rightarrow> th
      | Some t \<Rightarrow>
          (let t = set_scope l (\<lambda>s. s\<lparr>active := False\<rparr>) t;
               t = t\<lparr>top := top t - 1\<rparr>
           in th\<lparr>tls := Some t\<rparr>))"

definition FLUX_CATCH_unwind :: "int \<Rightarrow> flux_thread \<Rightarrow> flux_thread option" where
  "FLUX_CATCH_unwind l th =
     (case tls th of
        None \<Rightarrow> Some th
      | Some t \<Rightarrow>
          (case flux_release_guards (pool_guards (pool t)) (guards (stack t ! nat l)) (calls th) of
             None \<Rightarrow> None
           | Some cs \<Rightarrow>
               (let t = set_scope l (\<lambda>s. s\<lparr>active := False\<rparr>) t;
                    t = t\<lparr>top := top t - 1\<rparr>
                in Some (th\<lparr>tls := Some t, calls := cs\<rparr>))))"

text \<open>\<^verbatim>\<open>FLUX_DEFER(dt, p)\<close> at \<^verbatim>\<open>__FILE__\<close> \<open>f\<close>, \<^verbatim>\<open>__LINE__\<close> \<open>ln\<close>.\<close>

definition FLUX_DEFER :: "nat \<Rightarrow> nat \<Rightarrow> string \<Rightarrow> int \<Rightarrow> flux_thread \<Rightarrow> control \<times> flux_thread" where
  "FLUX_DEFER dt p f ln th =
     (let (t, th) = flux_get_tls th;
          (g, pl) = flux_acquire_guard (pool t);
          t = t\<lparr>pool := pl\<rparr>
      in case g of
           Some a \<Rightarrow>
             if in_stack (top t)
             then (let g = \<lparr>dtor = dt, ptr = p, next' = guards (stack t ! nat (top t))\<rparr>;
                       t = t\<lparr>pool := (pool t)\<lparr>pool_guards := (pool_guards (pool t))[a := g]\<rparr>\<rparr>;
                       t = set_scope (top t) (\<lambda>s. s\<lparr>guards := Some a\<rparr>) t
                   in (Fallthrough, th\<lparr>tls := Some t\<rparr>))
             else (OutOfBounds, th\<lparr>tls := Some t\<rparr>)
         | None \<Rightarrow> FLUX_THROW_LIMIT f ln (th\<lparr>tls := Some t\<rparr>))"

subsection \<open>Client code\<close>

text \<open>
  Code written with the macros, as in \<^verbatim>\<open>main.c\<close>: a registration, a signaled failure, or
  a block \<^verbatim>\<open>FLUX_TRY { body } FLUX_CATCH(e) { handler } FLUX_END_TRY\<close>. A \<^verbatim>\<open>longjmp\<close>
  lands in the block whose \<^verbatim>\<open>setjmp\<close> filled \<^verbatim>\<open>stack[top].buf\<close>, the one with
  \<^verbatim>\<open>__l = top\<close>; \<open>None\<close> is a run that never returns.
\<close>

datatype stmt =
  Defer nat nat string int
| Throw "32 word" "string option" string int
| Try "stmt list" "stmt list"

definition cur :: "flux_thread \<Rightarrow> flux_tls" where
  "cur th = fst (flux_get_tls th)"

fun exec :: "stmt \<Rightarrow> flux_thread \<Rightarrow> (control \<times> flux_thread) option"
  and exec_list :: "stmt list \<Rightarrow> flux_thread \<Rightarrow> (control \<times> flux_thread) option" where
  "exec (Defer dt p f ln) th = Some (FLUX_DEFER dt p f ln th)"
| "exec (Throw c m f ln) th = Some (FLUX_THROW c m f ln th)"
| "exec (Try body handler) th =
     (if fst (FLUX_TRY th) \<noteq> Fallthrough then Some (FLUX_TRY th)
      else case exec_list body (snd (FLUX_TRY th)) of
             None \<Rightarrow> None
           | Some r \<Rightarrow>
               if fst r = Fallthrough
               then Some (Fallthrough, FLUX_CATCH_exit (top (cur (snd (FLUX_TRY th)))) (snd r))
               else if fst r = Longjmp \<and> top (cur (snd r)) = top (cur (snd (FLUX_TRY th)))
               then (case FLUX_CATCH_unwind (top (cur (snd (FLUX_TRY th)))) (snd r) of
                       None \<Rightarrow> None
                     | Some th3 \<Rightarrow> exec_list handler th3)
               else Some r)"
| "exec_list [] th = Some (Fallthrough, th)"
| "exec_list (s # ss) th =
     (case exec s th of
        None \<Rightarrow> None
      | Some r \<Rightarrow> if fst r = Fallthrough then exec_list ss (snd r) else Some r)"

subsection \<open>Notions used by the statements\<close>

text \<open>
  The value of the local \<^verbatim>\<open>basename\<close> of \<^verbatim>\<open>__flux_make_error\<close> for a non-null
  \<^verbatim>\<open>file\<close>.
\<close>

definition basename :: "string \<Rightarrow> string" where
  "basename p =
     (case after_last CHR ''/'' (cstr p) of
        Some b \<Rightarrow> b
      | None \<Rightarrow> (case after_last (CHR 0x5C) (cstr p) of Some b \<Rightarrow> b | None \<Rightarrow> cstr p))"

text \<open>An error object whose two buffers have their C sizes and hold terminated strings.\<close>

definition error_wf :: "flux_error \<Rightarrow> bool" where
  "error_wf e =
     (length (msg e) = 512 \<and> length (file' e) = 64 \<and> NUL \<in> set (msg e) \<and> NUL \<in> set (file' e))"

text \<open>
  A registry whose arrays have their C sizes and whose pool cursor is within
  \<open>0..FLUX_POOL_SIZE\<close>.
\<close>

definition tls_wf :: "flux_tls \<Rightarrow> bool" where
  "tls_wf t =
     (length (stack t) = 64 \<and> length (pool_guards (pool t)) = 2048 \<and>
      0 \<le> idx (pool t) \<and> idx (pool t) \<le> FLUX_POOL_SIZE)"

text \<open>The test \<^verbatim>\<open>head->dtor && head->ptr\<close> of \<^verbatim>\<open>__flux_release_guards\<close>.\<close>

definition callable :: "nat \<times> nat \<Rightarrow> bool" where
  "callable g = (fst g \<noteq> 0 \<and> snd g \<noteq> 0)"

text \<open>
  The guard list that starts at \<open>h\<close> in the pool \<open>mem\<close> visits exactly the slots \<open>as\<close>, in
  this order, and then ends in a null pointer.
\<close>

fun guard_path :: "flux_guard list \<Rightarrow> nat option \<Rightarrow> nat list \<Rightarrow> bool" where
  "guard_path mem h [] = (h = None)"
| "guard_path mem h (a # as) = (h = Some a \<and> guard_path mem (next' (mem ! a)) as)"

text \<open>The cleanup action and the argument held in slot \<open>a\<close>.\<close>

definition guard_call :: "flux_guard list \<Rightarrow> nat \<Rightarrow> nat \<times> nat" where
  "guard_call mem a = (dtor (mem ! a), ptr (mem ! a))"

text \<open>A run of registrations \<^verbatim>\<open>FLUX_DEFER(dt, p)\<close>, one for each pair of the list.\<close>

fun defers :: "(nat \<times> nat) list \<Rightarrow> string \<Rightarrow> int \<Rightarrow> stmt list" where
  "defers [] f ln = []"
| "defers (g # gs) f ln = Defer (fst g) (snd g) f ln # defers gs f ln"

text \<open>\<open>n\<close> blocks nested in each other, the innermost with an empty body.\<close>

fun nest :: "nat \<Rightarrow> stmt list" where
  "nest 0 = []"
| "nest (Suc n) = [Try (nest n) []]"

text \<open>
  A thread whose registry is well formed with \<open>top\<close> between \<open>-1\<close> and \<open>63\<close>, and what
  a run from \<open>th\<close> that ends in \<open>th'\<close> with control \<open>c\<close> keeps.
\<close>

definition good :: "flux_thread \<Rightarrow> bool" where
  "good th = (tls_wf (cur th) \<and> - 1 \<le> top (cur th) \<and> top (cur th) \<le> 63)"

definition kept :: "flux_thread \<Rightarrow> control \<Rightarrow> flux_thread \<Rightarrow> bool" where
  "kept th c th' =
     (good th' \<and> (tls th \<noteq> None \<longrightarrow> tls th' \<noteq> None) \<and>
      (c = Fallthrough \<or> c = Longjmp \<longrightarrow> top (cur th') = top (cur th)))"

text \<open>
  The record \<^verbatim>\<open>stack[0]\<close> has the same jump-buffer state and the same \<open>active\<close> flag in
  \<open>th\<close> and \<open>th'\<close>.
\<close>

definition base_same :: "flux_thread \<Rightarrow> flux_thread \<Rightarrow> bool" where
  "base_same th th' =
     (buf (stack (cur th') ! 0) = buf (stack (cur th) ! 0) \<and>
      active (stack (cur th') ! 0) = active (stack (cur th) ! 0))"

section \<open>Properties\<close>

subsection \<open>Error objects\<close>

lemma cstr_no_NUL: "NUL \<notin> set (cstr s)"
  unfolding cstr_def using set_takeWhileD by fastforce

lemma cstr_stop: "NUL \<notin> set a \<Longrightarrow> cstr (a @ NUL # r) = a"
  unfolding cstr_def by (induction a) auto

lemma cstr_idem: "cstr (cstr s) = cstr s"
  unfolding cstr_def by simp

lemma strncpy_zero:
  "strncpy (replicate (Suc n) NUL) s n = take n (cstr s) @ NUL # replicate (n - length (take n (cstr s))) NUL"
proof -
  have "drop n (replicate (Suc n) NUL) = [NUL]"
    unfolding drop_replicate by simp
  then show ?thesis
    unfolding strncpy_def Let_def by (simp only: replicate_append_same)
qed

lemma length_strncpy_zero: "length (strncpy (replicate (Suc n) NUL) s n) = Suc n"
  unfolding strncpy_zero by simp

lemma strncpy_zero_last: "(strncpy (replicate (Suc n) NUL) s n)[n := NUL] = strncpy (replicate (Suc n) NUL) s n"
proof -
  have "length (take n (cstr s)) + (n - length (take n (cstr s))) = n" by simp
  then have "(take n (cstr s) @ replicate (n - length (take n (cstr s))) NUL @ [NUL])[n := NUL]
      = take n (cstr s) @ replicate (n - length (take n (cstr s))) NUL @ [NUL]"
    by (metis append.assoc length_append length_replicate list_update_length)
  then show ?thesis
    unfolding strncpy_zero by (simp only: replicate_append_same)
qed

lemma cstr_strncpy_zero: "cstr (strncpy (replicate (Suc n) NUL) s n) = take n (cstr s)"
  unfolding strncpy_zero using cstr_no_NUL [of s]
  by (intro cstr_stop) (auto dest: in_set_takeD)

lemma strncpy_zero_NUL: "NUL \<in> set (strncpy (replicate (Suc n) NUL) s n)"
  unfolding strncpy_zero by simp

lemma strncpy_zero_nth_last: "strncpy (replicate (Suc n) NUL) s n ! n = NUL"
proof -
  have "length (take n (cstr s)) + (n - length (take n (cstr s))) = n" by simp
  then have "(take n (cstr s) @ replicate (n - length (take n (cstr s))) NUL @ [NUL]) ! n = NUL"
    by (metis append.assoc length_append length_replicate nth_append_length)
  then show ?thesis
    unfolding strncpy_zero by (simp only: replicate_append_same)
qed

lemma sizes: "Suc 511 = (512::nat)" "Suc 63 = (64::nat)"
  by simp_all

lemmas strncpy_last_512 = strncpy_zero_last [of 511, unfolded sizes]
lemmas strncpy_last_64 = strncpy_zero_last [of 63, unfolded sizes]
lemmas length_strncpy_512 = length_strncpy_zero [of 511, unfolded sizes]
lemmas length_strncpy_64 = length_strncpy_zero [of 63, unfolded sizes]
lemmas cstr_strncpy_512 = cstr_strncpy_zero [of 511, unfolded sizes]
lemmas cstr_strncpy_64 = cstr_strncpy_zero [of 63, unfolded sizes]
lemmas strncpy_NUL_512 = strncpy_zero_NUL [of 511, unfolded sizes]
lemmas strncpy_NUL_64 = strncpy_zero_NUL [of 63, unfolded sizes]
lemmas strncpy_nth_512 = strncpy_zero_nth_last [of 511, unfolded sizes]

lemma msg_make_error_Some:
  "msg (flux_make_error c (Some s) f ln) = strncpy (replicate 512 NUL) s 511"
  unfolding flux_make_error_def zero_error_def FLUX_ERROR_MSG_MAX_def Let_def
  by (simp add: strncpy_last_512 split: option.split)

lemma msg_make_error_None:
  "msg (flux_make_error c None f ln) = replicate 512 NUL"
  unfolding flux_make_error_def zero_error_def Let_def
  by (simp split: option.split)

lemma file_make_error_Some:
  "file' (flux_make_error c m (Some p) ln) = strncpy (replicate 64 NUL) (basename p) 63"
  unfolding flux_make_error_def zero_error_def FLUX_ERROR_MSG_MAX_def Let_def basename_def
  by (simp add: strncpy_last_64 split: option.split)

lemma file_make_error_None:
  "file' (flux_make_error c m None ln) = replicate 64 NUL"
  unfolding flux_make_error_def zero_error_def Let_def
  by (simp split: option.split)

lemma code_make_error: "code (flux_make_error c m f ln) = c"
  unfolding flux_make_error_def zero_error_def Let_def by (simp split: option.split)

lemma line_make_error: "line (flux_make_error c m f ln) = ln"
  unfolding flux_make_error_def zero_error_def Let_def by (simp split: option.split)

lemma cstr_empty_iff: "s \<noteq> [] \<Longrightarrow> (cstr s = []) = (s ! 0 = NUL)"
  unfolding cstr_def by (cases s) auto

lemma make_error_wf: "error_wf (flux_make_error c m f ln)"
proof -
  have "length (msg (flux_make_error c m f ln)) = 512 \<and> NUL \<in> set (msg (flux_make_error c m f ln))"
    by (cases m) (simp_all add: msg_make_error_None msg_make_error_Some length_strncpy_512 strncpy_NUL_512)
  moreover have "length (file' (flux_make_error c m f ln)) = 64 \<and> NUL \<in> set (file' (flux_make_error c m f ln))"
    by (cases f) (simp_all add: file_make_error_None file_make_error_Some length_strncpy_64 strncpy_NUL_64)
  ultimately show ?thesis unfolding error_wf_def by simp
qed

lemma make_error_msg_last: "msg (flux_make_error c m f ln) ! 511 = NUL"
  by (cases m) (simp_all add: msg_make_error_None msg_make_error_Some strncpy_nth_512)

lemma cstr_msg_make_error: "cstr (msg (flux_make_error c (Some s) f ln)) = take 511 (cstr s)"
  unfolding msg_make_error_Some by (rule cstr_strncpy_512)

lemma after_last_subset: "after_last c s = Some b \<Longrightarrow> set b \<subseteq> set s"
  by (induction s arbitrary: b) (auto split: option.splits if_splits)

lemma cstr_file_make_error: "cstr (file' (flux_make_error c m (Some p) ln)) = take 63 (basename p)"
proof -
  have "NUL \<notin> set (basename p)"
    unfolding basename_def using cstr_no_NUL [of p]
    by (auto split: option.split dest: after_last_subset)
  then have "cstr (basename p) = basename p"
    unfolding cstr_def by (auto simp add: takeWhile_eq_all_conv)
  then show ?thesis
    unfolding file_make_error_Some cstr_strncpy_64 by simp
qed

lemma cstr_zeros: "cstr (replicate n NUL) = []"
  unfolding cstr_def takeWhile_replicate by simp

text \<open>
  C6. The message stored by \<^verbatim>\<open>__flux_make_error\<close>, read as a C string, is the input
  message when that has at most 511 bytes and its first 511 bytes otherwise; the buffer has
  512 bytes and its last byte is NUL whatever the message pointer is, null included, in
  which case the stored message is empty.
\<close>

theorem C6_message_truncated_and_terminated:
  "(length (cstr s) \<le> 511 \<longrightarrow> cstr (msg (flux_make_error c (Some s) f ln)) = cstr s) \<and>
   (511 < length (cstr s) \<longrightarrow> cstr (msg (flux_make_error c (Some s) f ln)) = take 511 (cstr s)) \<and>
   length (msg (flux_make_error c m f ln)) = 512 \<and>
   msg (flux_make_error c m f ln) ! 511 = NUL \<and>
   cstr (msg (flux_make_error c None f ln)) = []"
  using make_error_wf [of c m f ln] make_error_msg_last [of c m f ln]
  by (simp add: cstr_msg_make_error error_wf_def msg_make_error_None cstr_zeros)

theorem C6_message_truncated_and_terminated_witness:
  "length (cstr ''bad input'') \<le> 511 \<and>
   cstr (msg (flux_make_error 4 (Some ''bad input'') None 7)) = cstr ''bad input'' \<and>
   511 < length (cstr (replicate 600 CHR ''a'')) \<and>
   cstr (msg (flux_make_error 4 (Some (replicate 600 CHR ''a'')) None 7)) = take 511 (cstr (replicate 600 CHR ''a''))"
  using C6_message_truncated_and_terminated [of "''bad input''" 4 None 7 None]
    C6_message_truncated_and_terminated [of "replicate 600 CHR ''a''" 4 None 7 None]
  by (simp add: cstr_def NUL_def)

lemma error_print_Some:
  assumes "error_wf e"
  shows "flux_error_print (Some e) out =
     (if cstr (msg e) = [] then out
      else out @ fire_prefix @ ''['' @ cstr (file' e) @ '':'' @ dec_int (line e)
             @ ''] ERR '' @ dec_int (sint (code e)) @ '': '' @ cstr (msg e) @ [CHR 0x0A])"
proof -
  from assms have "msg e \<noteq> []" unfolding error_wf_def by auto
  then have "(cstr (msg e) = []) = (msg e ! 0 = NUL)" by (rule cstr_empty_iff)
  then show ?thesis unfolding flux_error_print_def by simp
qed

lemma error_print_make_error:
  "flux_error_print (Some (flux_make_error c (Some s) (Some p) ln)) out =
     (if cstr s = [] then out
      else out @ fire_prefix @ ''['' @ take 63 (basename p) @ '':'' @ dec_int ln
             @ ''] ERR '' @ dec_int (sint c) @ '': '' @ take 511 (cstr s) @ [CHR 0x0A])"
  unfolding error_print_Some [OF make_error_wf] cstr_msg_make_error cstr_file_make_error
    code_make_error line_make_error
  by simp

lemma error_print_make_error_null:
  "flux_error_print (Some (flux_make_error c None f ln)) out = out"
  unfolding error_print_Some [OF make_error_wf] msg_make_error_None cstr_zeros by simp

text \<open>
  C7, in the form the code satisfies. For an error object with terminated buffers and a non-empty message,
  \<^verbatim>\<open>flux_error_print\<close> writes the four bytes of U+1F525 and a space, then
  \<^verbatim>\<open>[<file>:<line>] ERR <code>: <message>\<close>, then a newline; for one with an empty
  message it writes nothing.
\<close>

theorem C7_render_with_prefix:
  assumes "error_wf e"
  shows "(cstr (msg e) \<noteq> [] \<longrightarrow>
            flux_error_print (Some e) out =
              out @ fire_prefix @ ''['' @ cstr (file' e) @ '':'' @ dec_int (line e)
                @ ''] ERR '' @ dec_int (sint (code e)) @ '': '' @ cstr (msg e) @ [CHR 0x0A]) \<and>
         (cstr (msg e) = [] \<longrightarrow> flux_error_print (Some e) out = out)"
  using error_print_Some [OF assms] by simp

lemma dec_7: "dec_int 7 = ''7''" by code_simp
lemma dec_4: "dec_int 4 = ''4''" by code_simp
lemma base_ex: "basename ''/a/b/c.txt'' = ''c.txt''" by code_simp
lemma cstr_ex: "cstr ''bad input'' = ''bad input''" by code_simp

theorem C7_render_with_prefix_witness:
  "error_wf (flux_make_error 4 (Some ''bad input'') (Some ''/a/b/c.txt'') 7) \<and>
   cstr (msg (flux_make_error 4 (Some ''bad input'') (Some ''/a/b/c.txt'') 7)) \<noteq> [] \<and>
   flux_error_print (Some (flux_make_error 4 (Some ''bad input'') (Some ''/a/b/c.txt'') 7)) []
     = fire_prefix @ ''[c.txt:7] ERR 4: bad input'' @ [CHR 0x0A] \<and>
   error_wf (flux_make_error 4 None (Some ''/a/b/c.txt'') 7) \<and>
   cstr (msg (flux_make_error 4 None (Some ''/a/b/c.txt'') 7)) = [] \<and>
   flux_error_print (Some (flux_make_error 4 None (Some ''/a/b/c.txt'') 7)) [] = []"
  using C7_render_with_prefix [OF make_error_wf, of 4 "Some ''bad input''" "Some ''/a/b/c.txt''" 7 "[]"]
    C7_render_with_prefix [OF make_error_wf, of 4 None "Some ''/a/b/c.txt''" 7 "[]"]
  by (simp add: make_error_wf cstr_msg_make_error cstr_file_make_error code_make_error
      line_make_error msg_make_error_None cstr_zeros dec_7 dec_4 base_ex cstr_ex)

theorem C7_render_without_prefix_counterexample:
  "flux_error_print (Some (flux_make_error 4 (Some ''bad input'') (Some ''/a/b/c.txt'') 7)) []
     \<noteq> ''[c.txt:7] ERR 4: bad input''"
  unfolding error_print_make_error
  by (simp add: dec_7 dec_4 base_ex cstr_ex fire_prefix_def)

subsection \<open>The macros on a registry\<close>

lemma get_tls_cur: "flux_get_tls th = (cur th, th\<lparr>tls := Some (cur th)\<rparr>)"
  unfolding cur_def flux_get_tls_def by (cases "tls th") simp_all

lemma cur_tls_update [simp]: "cur (th\<lparr>tls := Some t\<rparr>) = t"
  unfolding cur_def flux_get_tls_def by simp

lemma cur_stderr_update [simp]: "cur (th\<lparr>stderr := x\<rparr>) = cur th"
  unfolding cur_def flux_get_tls_def by (simp split: option.split)

lemma cur_calls_update [simp]: "cur (th\<lparr>calls := x\<rparr>) = cur th"
  unfolding cur_def flux_get_tls_def by (simp split: option.split)

lemma cur_Some: "tls th = Some t \<Longrightarrow> cur th = t"
  unfolding cur_def flux_get_tls_def by simp

lemma cur_thread_start: "cur thread_start = calloc_tls"
  unfolding cur_def flux_get_tls_def thread_start_def by simp

lemma set_scope_simps [simp]:
  "top (set_scope l f t) = top t"
  "pool (set_scope l f t) = pool t"
  "stack (set_scope l f t) = (stack t)[nat l := f (stack t ! nat l)]"
  unfolding set_scope_def by simp_all

lemma in_stack_nat: "in_stack l \<Longrightarrow> length s = 64 \<Longrightarrow> nat l < length s"
  unfolding in_stack_def FLUX_MAX_DEPTH_def by auto

lemma TRY_abort:
  "63 \<le> top (cur th) \<Longrightarrow> FLUX_TRY th = (Abort, th\<lparr>tls := Some (cur th)\<rparr>)"
  unfolding FLUX_TRY_def get_tls_cur FLUX_MAX_DEPTH_def by simp

lemma wf_stack: "tls_wf t \<Longrightarrow> in_stack l \<Longrightarrow> nat l < length (stack t)"
  unfolding tls_wf_def in_stack_def FLUX_MAX_DEPTH_def by auto

lemma TRY_enter:
  assumes "tls_wf (cur th)" "- 1 \<le> top (cur th)" "top (cur th) < 63"
  shows "FLUX_TRY th =
    (Fallthrough,
     th\<lparr>tls := Some ((cur th)\<lparr>top := top (cur th) + 1,
        stack := (stack (cur th))[nat (top (cur th) + 1) :=
           (stack (cur th) ! nat (top (cur th) + 1))\<lparr>guards := None, active := True, buf := True\<rparr>],
        pool := (pool (cur th))\<lparr>idx := 0\<rparr>\<rparr>)\<rparr>)"
proof -
  have "nat (top (cur th) + 1) < length (stack (cur th))"
    using assms unfolding tls_wf_def by auto
  then show ?thesis
    using assms(2,3)
    unfolding FLUX_TRY_def get_tls_cur FLUX_MAX_DEPTH_def in_stack_def flux_reset_pool_def
      set_scope_def Let_def
    by simp
qed

lemma THROW_in:
  assumes "tls_wf (cur th)" "in_stack (top (cur th))"
  shows "FLUX_THROW c m f ln th =
    (if buf (stack (cur th) ! nat (top (cur th))) then Longjmp else BadJmpBuf,
     th\<lparr>tls := Some (set_scope (top (cur th)) (\<lambda>s. s\<lparr>err := flux_make_error c m (Some f) ln\<rparr>) (cur th))\<rparr>)"
  using assms(2) wf_stack [OF assms]
  unfolding FLUX_THROW_def get_tls_cur in_stack_def Let_def
  by simp

lemma THROW_out:
  assumes "\<not> in_stack (top (cur th))"
  shows "FLUX_THROW c m f ln th =
    (Abort, th\<lparr>tls := Some (cur th),
               stderr := flux_error_print (Some (flux_make_error c m (Some f) ln)) (stderr th)\<rparr>)"
  using assms
  unfolding FLUX_THROW_def get_tls_cur in_stack_def Let_def
  by auto

lemma DEFER_ok:
  assumes "tls_wf (cur th)" "in_stack (top (cur th))" "idx (pool (cur th)) < 2048"
  shows "FLUX_DEFER dt p f ln th =
    (Fallthrough,
     th\<lparr>tls := Some ((cur th)\<lparr>
        pool := (pool (cur th))\<lparr>idx := idx (pool (cur th)) + 1,
           pool_guards := (pool_guards (pool (cur th)))[nat (idx (pool (cur th))) :=
              \<lparr>dtor = dt, ptr = p, next' = guards (stack (cur th) ! nat (top (cur th)))\<rparr>]\<rparr>,
        stack := (stack (cur th))[nat (top (cur th)) :=
           (stack (cur th) ! nat (top (cur th)))\<lparr>guards := Some (nat (idx (pool (cur th))))\<rparr>]\<rparr>)\<rparr>)"
  using assms(2,3)
  unfolding FLUX_DEFER_def get_tls_cur flux_acquire_guard_def FLUX_POOL_SIZE_def Let_def set_scope_def
  by simp

lemma DEFER_limit:
  assumes "2048 \<le> idx (pool (cur th))"
  shows "FLUX_DEFER dt p f ln th =
     FLUX_THROW 5 (Some ''resource limit exceeded'') f ln (th\<lparr>tls := Some (cur th)\<rparr>)"
  using assms
  unfolding FLUX_DEFER_def get_tls_cur flux_acquire_guard_def FLUX_POOL_SIZE_def Let_def
    FLUX_THROW_LIMIT_def
  by simp

lemma CATCH_exit_cur:
  assumes "tls th \<noteq> None"
  shows "FLUX_CATCH_exit l th =
     th\<lparr>tls := Some ((set_scope l (\<lambda>s. s\<lparr>active := False\<rparr>) (cur th))\<lparr>top := top (cur th) - 1\<rparr>)\<rparr>"
  using assms unfolding FLUX_CATCH_exit_def Let_def by (auto simp: cur_Some)

lemma CATCH_unwind_cur:
  assumes "tls th \<noteq> None"
    "flux_release_guards (pool_guards (pool (cur th))) (guards (stack (cur th) ! nat l)) (calls th) = Some cs"
  shows "FLUX_CATCH_unwind l th =
     Some (th\<lparr>tls := Some ((set_scope l (\<lambda>s. s\<lparr>active := False\<rparr>) (cur th))\<lparr>top := top (cur th) - 1\<rparr>),
              calls := cs\<rparr>)"
  using assms unfolding FLUX_CATCH_unwind_def Let_def by (auto simp: cur_Some)

lemma CATCH_unwind_Some:
  assumes "tls th \<noteq> None" "FLUX_CATCH_unwind l th = Some th'"
  shows "\<exists>cs. th' = th\<lparr>tls := Some ((set_scope l (\<lambda>s. s\<lparr>active := False\<rparr>) (cur th))\<lparr>top := top (cur th) - 1\<rparr>),
              calls := cs\<rparr>"
  using assms unfolding FLUX_CATCH_unwind_def Let_def by (auto simp: cur_Some split: option.splits)

subsection \<open>Guard lists in the pool\<close>

lemma release_path:
  "guard_path mem h as \<Longrightarrow>
   flux_release_guards mem h cs = Some (cs @ filter callable (map (guard_call mem) as))"
proof (induction as arbitrary: h cs)
  case Nil
  then show ?case by (subst flux_release_guards.simps) simp
next
  case (Cons a as)
  from Cons.prems have h: "h = Some a" and p: "guard_path mem (next' (mem ! a)) as" by simp_all
  have c: "(0 < dtor (mem ! a) \<and> 0 < ptr (mem ! a)) = callable (guard_call mem a)"
    by (simp add: callable_def guard_call_def)
  have g: "(dtor (mem ! a), ptr (mem ! a)) = guard_call mem a"
    by (simp add: guard_call_def)
  show ?case
    unfolding h
    by (subst flux_release_guards.simps) (simp add: Cons.IH [OF p] c g)
qed

lemma path_frame:
  "guard_path mem h as \<Longrightarrow> k \<notin> set as \<Longrightarrow> guard_path (mem[k := g]) h as"
  by (induction as arbitrary: h) auto

lemma call_frame:
  "k \<notin> set as \<Longrightarrow> a \<in> set as \<Longrightarrow> guard_call (mem[k := g]) a = guard_call mem a"
  unfolding guard_call_def by (cases "a = k") simp_all

lemma call_update:
  "k < length mem \<Longrightarrow> guard_call (mem[k := g]) k = (dtor g, ptr g)"
  unfolding guard_call_def by simp

lemma DEFER_step:
  assumes wf: "tls_wf (cur th)" and ins: "in_stack (top (cur th))"
    and k: "idx (pool (cur th)) = int k" "k < 2048"
    and path: "guard_path (pool_guards (pool (cur th))) (guards (stack (cur th) ! nat (top (cur th)))) as"
    and below: "\<forall>a\<in>set as. a < k"
  shows "\<exists>th1. FLUX_DEFER dt p f ln th = (Fallthrough, th1) \<and> calls th1 = calls th \<and>
     stderr th1 = stderr th \<and> tls th1 \<noteq> None \<and> tls_wf (cur th1) \<and> top (cur th1) = top (cur th) \<and>
     idx (pool (cur th1)) = int (Suc k) \<and>
     stack (cur th1) = (stack (cur th))[nat (top (cur th)) :=
        (stack (cur th) ! nat (top (cur th)))\<lparr>guards := Some k\<rparr>] \<and>
     guard_path (pool_guards (pool (cur th1))) (Some k) (k # as) \<and>
     map (guard_call (pool_guards (pool (cur th1)))) (k # as)
       = (dt, p) # map (guard_call (pool_guards (pool (cur th)))) as"
proof -
  have lt: "idx (pool (cur th)) < 2048" using k by simp
  have kn: "k \<notin> set as" using below by auto
  have len: "k < length (pool_guards (pool (cur th)))" using wf k unfolding tls_wf_def by simp
  note eq = DEFER_ok [OF wf ins lt, of dt p f ln]
  show ?thesis
    unfolding eq using wf k kn len path
    by (auto simp add: tls_wf_def FLUX_POOL_SIZE_def path_frame call_frame call_update)
qed


lemma defers_run:
  assumes "tls_wf (cur th)" "in_stack (top (cur th))" "idx (pool (cur th)) = int k"
    "k + length gs \<le> 2048"
    "guard_path (pool_guards (pool (cur th))) (guards (stack (cur th) ! nat (top (cur th)))) as"
    "\<forall>a\<in>set as. a < k" "tls th \<noteq> None"
  shows "\<exists>th' as' h. exec_list (defers gs f ln) th = Some (Fallthrough, th') \<and>
     calls th' = calls th \<and> stderr th' = stderr th \<and> tls th' \<noteq> None \<and> tls_wf (cur th') \<and>
     top (cur th') = top (cur th) \<and> idx (pool (cur th')) = int (k + length gs) \<and>
     stack (cur th') = (stack (cur th))[nat (top (cur th)) :=
        (stack (cur th) ! nat (top (cur th)))\<lparr>guards := h\<rparr>] \<and>
     guard_path (pool_guards (pool (cur th'))) h as' \<and>
     map (guard_call (pool_guards (pool (cur th')))) as'
       = rev gs @ map (guard_call (pool_guards (pool (cur th)))) as"
  using assms
proof (induction gs arbitrary: th k as)
  case Nil
  have "exec_list (defers [] f ln) th = Some (Fallthrough, th) \<and>
     calls th = calls th \<and> stderr th = stderr th \<and> tls th \<noteq> None \<and> tls_wf (cur th) \<and>
     top (cur th) = top (cur th) \<and> idx (pool (cur th)) = int (k + length ([] :: (nat \<times> nat) list)) \<and>
     stack (cur th) = (stack (cur th))[nat (top (cur th)) :=
        (stack (cur th) ! nat (top (cur th)))\<lparr>guards := guards (stack (cur th) ! nat (top (cur th)))\<rparr>] \<and>
     guard_path (pool_guards (pool (cur th))) (guards (stack (cur th) ! nat (top (cur th)))) as \<and>
     map (guard_call (pool_guards (pool (cur th)))) as
       = rev [] @ map (guard_call (pool_guards (pool (cur th)))) as"
    using Nil.prems by simp
  then show ?case by (intro exI)
next
  case (Cons g gs)
  let ?n = "nat (top (cur th))"
  have n: "?n < length (stack (cur th))" using wf_stack Cons.prems(1,2) by blast
  have "k < 2048" using Cons.prems(4) by simp
  from DEFER_step [OF Cons.prems(1,2,3) this Cons.prems(5,6), of "fst g" "snd g" f ln]
  obtain th1 where d: "FLUX_DEFER (fst g) (snd g) f ln th = (Fallthrough, th1)"
    and c1: "calls th1 = calls th" "stderr th1 = stderr th" "tls th1 \<noteq> None" "tls_wf (cur th1)"
      "top (cur th1) = top (cur th)" "idx (pool (cur th1)) = int (Suc k)"
    and s1: "stack (cur th1) = (stack (cur th))[?n := (stack (cur th) ! ?n)\<lparr>guards := Some k\<rparr>]"
    and p1: "guard_path (pool_guards (pool (cur th1))) (Some k) (k # as)"
    and m1: "map (guard_call (pool_guards (pool (cur th1)))) (k # as)
       = (fst g, snd g) # map (guard_call (pool_guards (pool (cur th)))) as"
    by (elim exE conjE) (rule that; assumption)
  have h1: "guards (stack (cur th1) ! nat (top (cur th1))) = Some k"
    unfolding c1 s1 using n by simp
  have i1: "in_stack (top (cur th1))" unfolding c1 by (rule Cons.prems(2))
  have l1: "Suc k + length gs \<le> 2048" using Cons.prems(4) by simp
  have b1: "\<forall>a\<in>set (k # as). a < Suc k" using Cons.prems(6) by auto
  have pp: "guard_path (pool_guards (pool (cur th1))) (guards (stack (cur th1) ! nat (top (cur th1)))) (k # as)"
    unfolding h1 by (rule p1)
  from Cons.IH [OF c1(4) i1 c1(6) l1 pp b1 c1(3)]
  obtain th' as' h where e: "exec_list (defers gs f ln) th1 = Some (Fallthrough, th')"
    and c2: "calls th' = calls th1" "stderr th' = stderr th1" "tls th' \<noteq> None" "tls_wf (cur th')"
      "top (cur th') = top (cur th1)" "idx (pool (cur th')) = int (Suc k + length gs)"
    and s2: "stack (cur th') = (stack (cur th1))[nat (top (cur th1)) :=
        (stack (cur th1) ! nat (top (cur th1)))\<lparr>guards := h\<rparr>]"
    and p2: "guard_path (pool_guards (pool (cur th'))) h as'"
    and m2: "map (guard_call (pool_guards (pool (cur th')))) as'
       = rev gs @ map (guard_call (pool_guards (pool (cur th1)))) (k # as)"
    by (elim exE conjE) (rule that; assumption)
  have ex: "exec_list (defers (g # gs) f ln) th = Some (Fallthrough, th')"
    using d e by simp
  have st: "stack (cur th') = (stack (cur th))[?n := (stack (cur th) ! ?n)\<lparr>guards := h\<rparr>]"
    unfolding s2 c1 s1 using n by simp
  have mm: "map (guard_call (pool_guards (pool (cur th')))) as'
       = rev (g # gs) @ map (guard_call (pool_guards (pool (cur th)))) as"
    unfolding m2 m1 by simp
  have ix: "idx (pool (cur th')) = int (k + length (g # gs))" using c2(6) by simp
  have "exec_list (defers (g # gs) f ln) th = Some (Fallthrough, th') \<and>
     calls th' = calls th \<and> stderr th' = stderr th \<and> tls th' \<noteq> None \<and> tls_wf (cur th') \<and>
     top (cur th') = top (cur th) \<and> idx (pool (cur th')) = int (k + length (g # gs)) \<and>
     stack (cur th') = (stack (cur th))[nat (top (cur th)) :=
        (stack (cur th) ! nat (top (cur th)))\<lparr>guards := h\<rparr>] \<and>
     guard_path (pool_guards (pool (cur th'))) h as' \<and>
     map (guard_call (pool_guards (pool (cur th')))) as'
       = rev (g # gs) @ map (guard_call (pool_guards (pool (cur th)))) as"
    apply (intro conjI)
    apply (rule ex)
    apply (simp only: c2 c1)
    apply (simp only: c2 c1)
    apply (rule c2(3))
    apply (rule c2(4))
    apply (simp only: c2 c1)
    apply (rule ix)
    apply (rule st)
    apply (rule p2)
    apply (rule mm)
    done
  then show ?case by (intro exI)
qed

lemma exec_list_append:
  "exec_list (xs @ ys) th =
     (case exec_list xs th of
        None \<Rightarrow> None
      | Some r \<Rightarrow> if fst r = Fallthrough then exec_list ys (snd r) else Some r)"
  by (induction xs arbitrary: th) (auto split: option.splits)

subsection \<open>Blocks of registrations\<close>

lemma TRY_props:
  assumes wf: "tls_wf (cur th)" and lo: "- 1 \<le> top (cur th)" and hi: "top (cur th) < 63"
  shows "\<exists>th1. FLUX_TRY th = (Fallthrough, th1) \<and> calls th1 = calls th \<and> stderr th1 = stderr th \<and>
     tls th1 \<noteq> None \<and> tls_wf (cur th1) \<and> top (cur th1) = top (cur th) + 1 \<and>
     in_stack (top (cur th1)) \<and> idx (pool (cur th1)) = 0 \<and>
     guards (stack (cur th1) ! nat (top (cur th1))) = None \<and>
     buf (stack (cur th1) ! nat (top (cur th1))) \<and>
     pool_guards (pool (cur th1)) = pool_guards (pool (cur th))"
proof -
  have n: "nat (top (cur th) + 1) < length (stack (cur th))"
    using assms unfolding tls_wf_def by auto
  show ?thesis
    unfolding TRY_enter [OF assms]
    using assms n
    by (simp add: tls_wf_def in_stack_def FLUX_MAX_DEPTH_def FLUX_POOL_SIZE_def)
qed

lemma scoped_defers:
  assumes wf: "tls_wf (cur th)" and lo: "- 1 \<le> top (cur th)" and hi: "top (cur th) < 63"
    and len: "length gs \<le> 2048"
  shows "\<exists>th1 th2 as h. FLUX_TRY th = (Fallthrough, th1) \<and> top (cur th1) = top (cur th) + 1 \<and>
     exec_list (defers gs f ln) th1 = Some (Fallthrough, th2) \<and>
     calls th2 = calls th \<and> stderr th2 = stderr th \<and> tls th2 \<noteq> None \<and> tls_wf (cur th2) \<and>
     top (cur th2) = top (cur th) + 1 \<and> in_stack (top (cur th2)) \<and>
     idx (pool (cur th2)) = int (length gs) \<and>
     guards (stack (cur th2) ! nat (top (cur th2))) = h \<and>
     buf (stack (cur th2) ! nat (top (cur th2))) \<and>
     guard_path (pool_guards (pool (cur th2))) h as \<and>
     map (guard_call (pool_guards (pool (cur th2)))) as = rev gs"
proof -
  from TRY_props [OF wf lo hi]
  obtain th1 where t: "FLUX_TRY th = (Fallthrough, th1)"
    and c1: "calls th1 = calls th" "stderr th1 = stderr th" "tls th1 \<noteq> None" "tls_wf (cur th1)"
      "top (cur th1) = top (cur th) + 1" "in_stack (top (cur th1))" "idx (pool (cur th1)) = 0"
    and g1: "guards (stack (cur th1) ! nat (top (cur th1))) = None"
    and b1: "buf (stack (cur th1) ! nat (top (cur th1)))"
    by (elim exE conjE) (rule that; assumption)
  have i0: "idx (pool (cur th1)) = int 0" using c1(7) by simp
  have l0: "0 + length gs \<le> 2048" using len by simp
  have p0: "guard_path (pool_guards (pool (cur th1))) (guards (stack (cur th1) ! nat (top (cur th1)))) []"
    unfolding g1 by simp
  have e0: "\<forall>a\<in>set ([] :: nat list). a < 0" by simp
  from defers_run [OF c1(4) c1(6) i0 l0 p0 e0 c1(3), of f ln]
  obtain th2 as h where e: "exec_list (defers gs f ln) th1 = Some (Fallthrough, th2)"
    and c2: "calls th2 = calls th1" "stderr th2 = stderr th1" "tls th2 \<noteq> None" "tls_wf (cur th2)"
      "top (cur th2) = top (cur th1)" "idx (pool (cur th2)) = int (0 + length gs)"
    and s2: "stack (cur th2) = (stack (cur th1))[nat (top (cur th1)) :=
        (stack (cur th1) ! nat (top (cur th1)))\<lparr>guards := h\<rparr>]"
    and p2: "guard_path (pool_guards (pool (cur th2))) h as"
    and m2: "map (guard_call (pool_guards (pool (cur th2)))) as
       = rev gs @ map (guard_call (pool_guards (pool (cur th1)))) []"
    by (elim exE conjE) (rule that; assumption)
  have n: "nat (top (cur th1)) < length (stack (cur th1))" using wf_stack c1(4) c1(6) by blast
  have "FLUX_TRY th = (Fallthrough, th1) \<and> top (cur th1) = top (cur th) + 1 \<and>
     exec_list (defers gs f ln) th1 = Some (Fallthrough, th2) \<and>
     calls th2 = calls th \<and> stderr th2 = stderr th \<and> tls th2 \<noteq> None \<and> tls_wf (cur th2) \<and>
     top (cur th2) = top (cur th) + 1 \<and> in_stack (top (cur th2)) \<and>
     idx (pool (cur th2)) = int (length gs) \<and>
     guards (stack (cur th2) ! nat (top (cur th2))) = h \<and>
     buf (stack (cur th2) ! nat (top (cur th2))) \<and>
     guard_path (pool_guards (pool (cur th2))) h as \<and>
     map (guard_call (pool_guards (pool (cur th2)))) as = rev gs"
    using t e c1 c2 b1 p2 m2 n unfolding s2 by simp
  then show ?thesis by (intro exI)
qed


lemma try_defers_throw:
  assumes wf: "tls_wf (cur th)" and lo: "- 1 \<le> top (cur th)" and hi: "top (cur th) < 63"
    and len: "length gs \<le> 2048"
  shows "\<exists>th4. exec (Try (defers gs f ln @ [Throw c m f' ln']) handler) th = exec_list handler th4 \<and>
     calls th4 = calls th @ rev (filter callable gs) \<and> stderr th4 = stderr th \<and>
     tls th4 \<noteq> None \<and> tls_wf (cur th4) \<and> top (cur th4) = top (cur th) \<and>
     err (stack (cur th4) ! nat (top (cur th) + 1)) = flux_make_error c m (Some f') ln' \<and>
     \<not> active (stack (cur th4) ! nat (top (cur th) + 1))"
proof -
  from scoped_defers [OF assms, of f ln]
  obtain th1 th2 as h where t: "FLUX_TRY th = (Fallthrough, th1)"
    and l1: "top (cur th1) = top (cur th) + 1"
    and e: "exec_list (defers gs f ln) th1 = Some (Fallthrough, th2)"
    and c2: "calls th2 = calls th" "stderr th2 = stderr th" "tls th2 \<noteq> None" "tls_wf (cur th2)"
      "top (cur th2) = top (cur th) + 1" "in_stack (top (cur th2))"
    and g2: "guards (stack (cur th2) ! nat (top (cur th2))) = h"
    and b2: "buf (stack (cur th2) ! nat (top (cur th2)))"
    and p2: "guard_path (pool_guards (pool (cur th2))) h as"
    and m2: "map (guard_call (pool_guards (pool (cur th2)))) as = rev gs"
    by (elim exE conjE) (rule that; assumption)
  let ?l = "top (cur th) + 1"
  let ?e = "flux_make_error c m (Some f') ln'"
  define th3 where "th3 = th2\<lparr>tls := Some (set_scope (top (cur th2)) (\<lambda>s. s\<lparr>err := ?e\<rparr>) (cur th2))\<rparr>"
  have n: "nat ?l < length (stack (cur th2))" using wf_stack [OF c2(4) c2(6)] c2(5) by simp
  have thr: "FLUX_THROW c m f' ln' th2 = (Longjmp, th3)"
    unfolding THROW_in [OF c2(4) c2(6)] th3_def using b2 by simp
  have body: "exec_list (defers gs f ln @ [Throw c m f' ln']) th1 = Some (Longjmp, th3)"
    unfolding exec_list_append e by (simp add: thr)
  have top3: "top (cur th3) = ?l" unfolding th3_def using c2(5) by simp
  have tls3: "tls th3 \<noteq> None" unfolding th3_def by simp
  have g3: "guards (stack (cur th3) ! nat ?l) = h"
    unfolding th3_def using n g2 c2(5) by simp
  have rel: "flux_release_guards (pool_guards (pool (cur th3))) (guards (stack (cur th3) ! nat ?l)) (calls th3)
      = Some (calls th @ rev (filter callable gs))"
    unfolding g3 unfolding th3_def
    using release_path [OF p2, of "calls th2"] by (simp add: m2 c2(1) rev_filter)
  define th4 where "th4 = th3\<lparr>tls := Some ((set_scope ?l (\<lambda>s. s\<lparr>active := False\<rparr>) (cur th3))\<lparr>top := top (cur th3) - 1\<rparr>),
              calls := calls th @ rev (filter callable gs)\<rparr>"
  have unw: "FLUX_CATCH_unwind ?l th3 = Some th4"
    unfolding th4_def by (rule CATCH_unwind_cur [OF tls3 rel])
  have ex: "exec (Try (defers gs f ln @ [Throw c m f' ln']) handler) th = exec_list handler th4"
    using t l1 body top3 unw by simp
  have "exec (Try (defers gs f ln @ [Throw c m f' ln']) handler) th = exec_list handler th4 \<and>
     calls th4 = calls th @ rev (filter callable gs) \<and> stderr th4 = stderr th \<and>
     tls th4 \<noteq> None \<and> tls_wf (cur th4) \<and> top (cur th4) = top (cur th) \<and>
     err (stack (cur th4) ! nat (top (cur th) + 1)) = flux_make_error c m (Some f') ln' \<and>
     \<not> active (stack (cur th4) ! nat (top (cur th) + 1))"
    using ex n c2 unfolding th4_def th3_def by (simp add: tls_wf_def)
  then show ?thesis by (intro exI)
qed

lemma try_defers_exit:
  assumes wf: "tls_wf (cur th)" and lo: "- 1 \<le> top (cur th)" and hi: "top (cur th) < 63"
    and len: "length gs \<le> 2048"
  shows "\<exists>th3 as. exec (Try (defers gs f ln) handler) th = Some (Fallthrough, th3) \<and>
     calls th3 = calls th \<and> stderr th3 = stderr th \<and>
     tls th3 \<noteq> None \<and> tls_wf (cur th3) \<and> top (cur th3) = top (cur th) \<and>
     \<not> active (stack (cur th3) ! nat (top (cur th) + 1)) \<and>
     guard_path (pool_guards (pool (cur th3))) (guards (stack (cur th3) ! nat (top (cur th) + 1))) as \<and>
     map (guard_call (pool_guards (pool (cur th3)))) as = rev gs"
proof -
  from scoped_defers [OF assms, of f ln]
  obtain th1 th2 as h where t: "FLUX_TRY th = (Fallthrough, th1)"
    and l1: "top (cur th1) = top (cur th) + 1"
    and e: "exec_list (defers gs f ln) th1 = Some (Fallthrough, th2)"
    and c2: "calls th2 = calls th" "stderr th2 = stderr th" "tls th2 \<noteq> None" "tls_wf (cur th2)"
      "top (cur th2) = top (cur th) + 1" "in_stack (top (cur th2))"
    and g2: "guards (stack (cur th2) ! nat (top (cur th2))) = h"
    and p2: "guard_path (pool_guards (pool (cur th2))) h as"
    and m2: "map (guard_call (pool_guards (pool (cur th2)))) as = rev gs"
    by (elim exE conjE) (rule that; assumption)
  let ?l = "top (cur th) + 1"
  have n: "nat ?l < length (stack (cur th2))" using wf_stack [OF c2(4) c2(6)] c2(5) by simp
  have ex: "exec (Try (defers gs f ln) handler) th = Some (Fallthrough, FLUX_CATCH_exit ?l th2)"
    using t l1 e by simp
  have "exec (Try (defers gs f ln) handler) th = Some (Fallthrough, FLUX_CATCH_exit ?l th2) \<and>
     calls (FLUX_CATCH_exit ?l th2) = calls th \<and> stderr (FLUX_CATCH_exit ?l th2) = stderr th \<and>
     tls (FLUX_CATCH_exit ?l th2) \<noteq> None \<and> tls_wf (cur (FLUX_CATCH_exit ?l th2)) \<and>
     top (cur (FLUX_CATCH_exit ?l th2)) = top (cur th) \<and>
     \<not> active (stack (cur (FLUX_CATCH_exit ?l th2)) ! nat (top (cur th) + 1)) \<and>
     guard_path (pool_guards (pool (cur (FLUX_CATCH_exit ?l th2))))
        (guards (stack (cur (FLUX_CATCH_exit ?l th2)) ! nat (top (cur th) + 1))) as \<and>
     map (guard_call (pool_guards (pool (cur (FLUX_CATCH_exit ?l th2))))) as = rev gs"
    using ex n c2 g2 p2 m2 unfolding CATCH_exit_cur [OF c2(3)] by (simp add: tls_wf_def)
  then show ?thesis by (intro exI)
qed

subsection \<open>The depth of the scope stack\<close>

lemma TRY_inv:
  assumes "good th" "FLUX_TRY th = (c, th')"
  shows "tls th' \<noteq> None \<and> tls_wf (cur th') \<and>
     (c = Fallthrough \<and> top (cur th') = top (cur th) + 1 \<and> top (cur th) < 63 \<or>
      c = Abort \<and> top (cur th') = top (cur th) \<and> top (cur th) = 63)"
proof (cases "top (cur th) < 63")
  case True
  have n: "nat (top (cur th) + 1) < length (stack (cur th))"
    using assms(1) True unfolding good_def tls_wf_def by auto
  from assms(1) True have "FLUX_TRY th = (Fallthrough,
     th\<lparr>tls := Some ((cur th)\<lparr>top := top (cur th) + 1,
        stack := (stack (cur th))[nat (top (cur th) + 1) :=
           (stack (cur th) ! nat (top (cur th) + 1))\<lparr>guards := None, active := True, buf := True\<rparr>],
        pool := (pool (cur th))\<lparr>idx := 0\<rparr>\<rparr>)\<rparr>)"
    unfolding good_def by (intro TRY_enter) simp_all
  with assms True n show ?thesis
    by (auto simp add: good_def tls_wf_def FLUX_POOL_SIZE_def)
next
  case False
  then have "63 \<le> top (cur th)" by simp
  from TRY_abort [OF this] assms False show ?thesis by (auto simp add: good_def)
qed

lemma THROW_inv:
  assumes "tls_wf (cur th)" "FLUX_THROW c m f ln th = (r, th')"
  shows "tls th' \<noteq> None \<and> tls_wf (cur th') \<and> top (cur th') = top (cur th)"
proof (cases "in_stack (top (cur th))")
  case True
  from THROW_in [OF assms(1) True, of c m f ln] assms show ?thesis
    by (auto simp add: tls_wf_def)
next
  case False
  from THROW_out [OF False, of c m f ln] assms show ?thesis by auto
qed

lemma DEFER_inv:
  assumes "tls_wf (cur th)" "FLUX_DEFER dt p f ln th = (r, th')"
  shows "tls th' \<noteq> None \<and> tls_wf (cur th') \<and> top (cur th') = top (cur th)"
proof (cases "idx (pool (cur th)) < 2048")
  case True
  show ?thesis
  proof (cases "in_stack (top (cur th))")
    case ins: True
    from DEFER_ok [OF assms(1) ins True, of dt p f ln] assms True show ?thesis
      by (auto simp add: tls_wf_def FLUX_POOL_SIZE_def)
  next
    case False
    with assms True show ?thesis
      unfolding FLUX_DEFER_def get_tls_cur flux_acquire_guard_def FLUX_POOL_SIZE_def Let_def
      by (auto simp add: tls_wf_def FLUX_POOL_SIZE_def)
  qed
next
  case False
  then have "2048 \<le> idx (pool (cur th))" by simp
  from DEFER_limit [OF this, of dt p f ln] assms(2)
  have "FLUX_THROW 5 (Some ''resource limit exceeded'') f ln (th\<lparr>tls := Some (cur th)\<rparr>) = (r, th')"
    by simp
  from THROW_inv [OF _ this] assms(1) show ?thesis by simp
qed

lemma exit_inv:
  assumes "tls th \<noteq> None" "tls_wf (cur th)"
  shows "tls (FLUX_CATCH_exit l th) \<noteq> None \<and> tls_wf (cur (FLUX_CATCH_exit l th)) \<and>
     top (cur (FLUX_CATCH_exit l th)) = top (cur th) - 1 \<and> calls (FLUX_CATCH_exit l th) = calls th"
  unfolding CATCH_exit_cur [OF assms(1)] using assms(2) by (simp add: tls_wf_def)

lemma unwind_inv:
  assumes "tls th \<noteq> None" "tls_wf (cur th)" "FLUX_CATCH_unwind l th = Some th'"
  shows "tls th' \<noteq> None \<and> tls_wf (cur th') \<and> top (cur th') = top (cur th) - 1"
  using CATCH_unwind_Some [OF assms(1,3)] assms(2) by (auto simp add: tls_wf_def)


lemma exec_inv:
  shows "good th \<Longrightarrow> exec s th = Some (c, th') \<Longrightarrow> kept th c th' \<and> tls th' \<noteq> None"
    and "good th \<Longrightarrow> exec_list ss th = Some (c, th') \<Longrightarrow> kept th c th'"
proof (induction s th and ss th arbitrary: c th' and c th' rule: exec_exec_list.induct)
  case (1 dt p f ln th)
  then show ?case using DEFER_inv [of th dt p f ln c th'] by (auto simp add: good_def kept_def)
next
  case (2 c0 m f ln th)
  then show ?case using THROW_inv [of th c0 m f ln c th'] by (auto simp add: good_def kept_def)
next
  case (3 body handler th)
  obtain c1 th1 where t: "FLUX_TRY th = (c1, th1)" by (cases "FLUX_TRY th")
  note ti = TRY_inv [OF "3.prems"(1) t]
  show ?case
  proof (cases "c1 = Fallthrough")
    case False
    with "3.prems" t ti show ?thesis by (auto simp add: good_def kept_def)
  next
    case True
    from ti True have l: "top (cur th1) = top (cur th) + 1" and lt: "top (cur th) < 63"
      and n1: "tls th1 \<noteq> None" and w1: "tls_wf (cur th1)" by auto
    have g1: "good th1" using "3.prems"(1) l lt w1 by (simp add: good_def)
    from "3.prems"(2) t True obtain c2 th2 where b: "exec_list body th1 = Some (c2, th2)"
      by (auto split: option.splits)
    have f1: "fst (FLUX_TRY th) = Fallthrough" "snd (FLUX_TRY th) = th1" using t True by simp_all
    have k2: "kept th1 c2 th2" using "3.IH"(1) [of c2 th2] f1 g1 b by simp
    then have g2: "good th2" and n2: "tls th2 \<noteq> None" using n1 by (simp_all add: kept_def)
    show ?thesis
    proof (cases "c2 = Fallthrough")
      case c2: True
      with k2 have "top (cur th2) = top (cur th1)" by (simp add: kept_def)
      with "3.prems" t True b c2 exit_inv [OF n2, of "top (cur th1)"] g2 l
      show ?thesis by (auto simp add: good_def kept_def)
    next
      case nf: False
      show ?thesis
      proof (cases "c2 = Longjmp \<and> top (cur th2) = top (cur th1)")
        case False
        with "3.prems" t True b nf k2 g2 n2 l show ?thesis by (auto simp add: good_def kept_def)
      next
        case lj: True
        from "3.prems"(2) t True b nf lj obtain th3 where
          u: "FLUX_CATCH_unwind (top (cur th1)) th2 = Some th3"
          and h: "exec_list handler th3 = Some (c, th')"
          by (auto split: option.splits)
        from unwind_inv [OF n2 _ u] g2 have n3: "tls th3 \<noteq> None" and w3: "tls_wf (cur th3)"
          and t3: "top (cur th3) = top (cur th2) - 1" by (simp_all add: good_def)
        have g3: "good th3" using w3 t3 lj l "3.prems"(1) lt by (simp add: good_def)
        have "kept th3 c th'"
          using "3.IH"(2) [of "(c2, th2)" th3 c th'] f1 b nf lj u g3 h by simp
        with n3 t3 lj l show ?thesis by (auto simp add: kept_def)
      qed
    qed
  qed
next
  case (4 th)
  then show ?case by (simp add: kept_def)
next
  case (5 s ss th)
  from "5.prems"(2) obtain c1 th1 where e: "exec s th = Some (c1, th1)"
    by (auto split: option.splits)
  from "5.IH"(1) [OF "5.prems"(1) e] have k1: "kept th c1 th1" and n1: "tls th1 \<noteq> None" by simp_all
  show ?case
  proof (cases "c1 = Fallthrough")
    case True
    with "5.prems"(2) e have r: "exec_list ss th1 = Some (c, th')" by simp
    from k1 have g1: "good th1" by (simp add: kept_def)
    from "5.IH"(2) [of "(c1, th1)" c th'] e True g1 r have "kept th1 c th'" by simp
    with k1 True n1 show ?thesis by (auto simp add: kept_def)
  next
    case False
    with "5.prems"(2) e k1 show ?thesis by simp
  qed
qed

subsection \<open>Registration, unwinding and exit\<close>

lemma start_wf: "tls_wf (cur thread_start)"
  unfolding cur_thread_start calloc_tls_def tls_wf_def FLUX_POOL_SIZE_def by simp

lemma start_top: "top (cur thread_start) = 0"
  unfolding cur_thread_start calloc_tls_def by simp

lemma start_calls: "calls thread_start = []"
  unfolding thread_start_def by simp

lemma tls_cur_same: "tls th \<noteq> None \<Longrightarrow> th\<lparr>tls := Some (cur th)\<rparr> = th"
  by (auto simp add: cur_Some)

text \<open>
  C1, in the form the code satisfies. In a scope that registers the guards \<open>gs\<close> (at most 2048 of them) and then
  signals a failure, the unwind terminates and calls, in reverse registration order and each
  once with its stored argument, exactly the registered actions whose function pointer and
  argument are both non-null; it then hands control to the handler with \<open>top\<close> restored.
\<close>

theorem C1_unwind_calls_callable_guards_in_reverse:
  assumes "tls_wf (cur th)" "- 1 \<le> top (cur th)" "top (cur th) < 63" "length gs \<le> 2048"
  shows "\<exists>th'. exec (Try (defers gs f ln @ [Throw c m f' ln']) handler) th = exec_list handler th' \<and>
     calls th' = calls th @ rev (filter callable gs) \<and> top (cur th') = top (cur th)"
proof -
  from try_defers_throw [OF assms, of f ln c m f' ln' handler]
  obtain th4 where "exec (Try (defers gs f ln @ [Throw c m f' ln']) handler) th = exec_list handler th4"
    "calls th4 = calls th @ rev (filter callable gs)" "top (cur th4) = top (cur th)"
    by (elim exE conjE) (rule that; assumption)
  then show ?thesis by (intro exI conjI)
qed

theorem C1_unwind_calls_callable_guards_in_reverse_witness:
  "tls_wf (cur thread_start) \<and> - 1 \<le> top (cur thread_start) \<and> top (cur thread_start) < 63 \<and>
   length [(1::nat, 10::nat), (2, 20), (3, 0)] \<le> 2048 \<and>
   calls (snd (the (exec (Try (defers [(1, 10), (2, 20), (3, 0)] ''main.c'' 6
        @ [Throw 4 (Some ''bad input'') ''main.c'' 9]) []) thread_start)))
     = [(2, 20), (1, 10)]"
proof -
  have a: "tls_wf (cur thread_start)" by (rule start_wf)
  have b: "- 1 \<le> top (cur thread_start)" "top (cur thread_start) < 63" by (simp_all add: start_top)
  have c: "length [(1::nat, 10::nat), (2, 20), (3, 0)] \<le> 2048" by simp
  from C1_unwind_calls_callable_guards_in_reverse [OF a b c, of "''main.c''" 6 4 "Some ''bad input''" "''main.c''" 9 "[]"]
  obtain th' where "exec (Try (defers [(1, 10), (2, 20), (3, 0)] ''main.c'' 6
        @ [Throw 4 (Some ''bad input'') ''main.c'' 9]) []) thread_start = exec_list [] th'"
    "calls th' = calls thread_start @ rev (filter callable [(1::nat, 10::nat), (2, 20), (3, 0)])"
    by (elim exE conjE) (rule that; assumption)
  then show ?thesis using a b by (simp add: start_calls callable_def)
qed

theorem C1_null_argument_guard_counterexample:
  "exec (Try [Defer 1 0 ''main.c'' 6, Throw 4 (Some ''bad input'') ''main.c'' 9] []) thread_start \<noteq> None \<and>
   calls (snd (the (exec (Try [Defer 1 0 ''main.c'' 6, Throw 4 (Some ''bad input'') ''main.c'' 9] [])
      thread_start))) = []"
proof -
  have a: "tls_wf (cur thread_start)" by (rule start_wf)
  have b: "- 1 \<le> top (cur thread_start)" "top (cur thread_start) < 63" by (simp_all add: start_top)
  have c: "length [(1::nat, 0::nat)] \<le> 2048" by simp
  from try_defers_throw [OF a b c, of "''main.c''" 6 4 "Some ''bad input''" "''main.c''" 9 "[]"]
  obtain th' where "exec (Try (defers [(1, 0)] ''main.c'' 6
        @ [Throw 4 (Some ''bad input'') ''main.c'' 9]) []) thread_start = exec_list [] th'"
    "calls th' = calls thread_start @ rev (filter callable [(1::nat, 0::nat)])"
    by (elim exE conjE) (rule that; assumption)
  then show ?thesis by (simp add: start_calls callable_def)
qed

text \<open>
  C3. In one scope the first 2048 registrations fall through and leave the pool cursor at
  2048; the next \<^verbatim>\<open>FLUX_DEFER\<close> does a \<^verbatim>\<open>longjmp\<close> to the handler of the scope with
  error code 5 stored in the scope record, and changes nothing else: the pool, cursor
  included, and the guard list of the scope are as before.
\<close>

theorem C3_limit_signals_code_5:
  assumes "tls_wf (cur th)" "- 1 \<le> top (cur th)" "top (cur th) < 63" "length gs = 2048"
  shows "\<exists>th1 th2. FLUX_TRY th = (Fallthrough, th1) \<and>
     exec_list (defers gs f ln) th1 = Some (Fallthrough, th2) \<and>
     idx (pool (cur th2)) = 2048 \<and>
     FLUX_DEFER dt p f' ln' th2 =
       (Longjmp, th2\<lparr>tls := Some (set_scope (top (cur th2))
           (\<lambda>s. s\<lparr>err := flux_make_error 5 (Some ''resource limit exceeded'') (Some f') ln'\<rparr>) (cur th2))\<rparr>) \<and>
     code (err (stack (cur (snd (FLUX_DEFER dt p f' ln' th2))) ! nat (top (cur th2)))) = 5 \<and>
     pool (cur (snd (FLUX_DEFER dt p f' ln' th2))) = pool (cur th2) \<and>
     guards (stack (cur (snd (FLUX_DEFER dt p f' ln' th2))) ! nat (top (cur th2)))
       = guards (stack (cur th2) ! nat (top (cur th2)))"
proof -
  have len: "length gs \<le> 2048" using assms(4) by simp
  from scoped_defers [OF assms(1-3) len, of f ln]
  obtain th1 th2 as h where t: "FLUX_TRY th = (Fallthrough, th1)"
    and e: "exec_list (defers gs f ln) th1 = Some (Fallthrough, th2)"
    and c2: "tls th2 \<noteq> None" "tls_wf (cur th2)" "in_stack (top (cur th2))"
      "idx (pool (cur th2)) = int (length gs)"
    and b2: "buf (stack (cur th2) ! nat (top (cur th2)))"
    by (elim exE conjE) (rule that; assumption)
  have i: "idx (pool (cur th2)) = 2048" using c2(4) assms(4) by simp
  then have lim: "2048 \<le> idx (pool (cur th2))" by simp
  have n: "nat (top (cur th2)) < length (stack (cur th2))" by (rule wf_stack [OF c2(2,3)])
  have d: "FLUX_DEFER dt p f' ln' th2 =
       (Longjmp, th2\<lparr>tls := Some (set_scope (top (cur th2))
           (\<lambda>s. s\<lparr>err := flux_make_error 5 (Some ''resource limit exceeded'') (Some f') ln'\<rparr>) (cur th2))\<rparr>)"
    unfolding DEFER_limit [OF lim] tls_cur_same [OF c2(1)] THROW_in [OF c2(2,3)] using b2 by simp
  have "FLUX_TRY th = (Fallthrough, th1) \<and>
     exec_list (defers gs f ln) th1 = Some (Fallthrough, th2) \<and>
     idx (pool (cur th2)) = 2048 \<and>
     FLUX_DEFER dt p f' ln' th2 =
       (Longjmp, th2\<lparr>tls := Some (set_scope (top (cur th2))
           (\<lambda>s. s\<lparr>err := flux_make_error 5 (Some ''resource limit exceeded'') (Some f') ln'\<rparr>) (cur th2))\<rparr>) \<and>
     code (err (stack (cur (snd (FLUX_DEFER dt p f' ln' th2))) ! nat (top (cur th2)))) = 5 \<and>
     pool (cur (snd (FLUX_DEFER dt p f' ln' th2))) = pool (cur th2) \<and>
     guards (stack (cur (snd (FLUX_DEFER dt p f' ln' th2))) ! nat (top (cur th2)))
       = guards (stack (cur th2) ! nat (top (cur th2)))"
    unfolding d using t e i n by (simp add: code_make_error)
  then show ?thesis by (intro exI)
qed

theorem C3_limit_signals_code_5_witness:
  "tls_wf (cur thread_start) \<and> - 1 \<le> top (cur thread_start) \<and> top (cur thread_start) < 63 \<and>
   length (replicate 2048 (1::nat, 1::nat)) = 2048 \<and>
   fst (the (exec_list (defers (replicate 2048 (1, 1)) ''main.c'' 6) (snd (FLUX_TRY thread_start))))
     = Fallthrough \<and>
   fst (FLUX_DEFER 1 1 ''main.c'' 7
      (snd (the (exec_list (defers (replicate 2048 (1, 1)) ''main.c'' 6) (snd (FLUX_TRY thread_start))))))
     = Longjmp"
proof -
  have a: "tls_wf (cur thread_start)" by (rule start_wf)
  have b: "- 1 \<le> top (cur thread_start)" "top (cur thread_start) < 63" by (simp_all add: start_top)
  have c: "length (replicate 2048 (1::nat, 1::nat)) = 2048" by simp
  from C3_limit_signals_code_5 [OF a b c, of "''main.c''" 6 1 1 "''main.c''" 7]
  obtain th1 th2 where "FLUX_TRY thread_start = (Fallthrough, th1)"
    "exec_list (defers (replicate 2048 (1, 1)) ''main.c'' 6) th1 = Some (Fallthrough, th2)"
    "FLUX_DEFER 1 1 ''main.c'' 7 th2 =
       (Longjmp, th2\<lparr>tls := Some (set_scope (top (cur th2))
           (\<lambda>s. s\<lparr>err := flux_make_error 5 (Some ''resource limit exceeded'') (Some ''main.c'') 7\<rparr>) (cur th2))\<rparr>)"
    by (elim exE conjE) (rule that; assumption)
  then show ?thesis using a b by simp
qed


text \<open>
  C8. When the body of a block falls through, the block falls through as well: the exit
  clears the \<open>active\<close> flag of the record, decrements \<open>top\<close> back to its value before
  entry and makes no cleanup call; the guard list of the record and the pool stay as the
  body left them.
\<close>

theorem C8_normal_exit_runs_no_guard:
  assumes "tls_wf (cur th)" "- 1 \<le> top (cur th)" "top (cur th) < 63"
    "exec_list body (snd (FLUX_TRY th)) = Some (Fallthrough, th2)"
  shows "\<exists>th3. exec (Try body handler) th = Some (Fallthrough, th3) \<and>
     th3 = FLUX_CATCH_exit (top (cur th) + 1) th2 \<and>
     calls th3 = calls th2 \<and> top (cur th2) = top (cur th) + 1 \<and> top (cur th3) = top (cur th) \<and>
     \<not> active (stack (cur th3) ! nat (top (cur th) + 1)) \<and>
     guards (stack (cur th3) ! nat (top (cur th) + 1)) = guards (stack (cur th2) ! nat (top (cur th) + 1)) \<and>
     pool (cur th3) = pool (cur th2)"
proof -
  let ?l = "top (cur th) + 1"
  from TRY_props [OF assms(1-3)]
  obtain th1 where t: "FLUX_TRY th = (Fallthrough, th1)"
    and c1: "tls th1 \<noteq> None" "tls_wf (cur th1)" "top (cur th1) = ?l" "in_stack (top (cur th1))"
    by (elim exE conjE) (rule that; assumption)
  have g1: "good th1" using c1 assms(2,3) by (simp add: good_def)
  have b: "exec_list body th1 = Some (Fallthrough, th2)" using assms(4) t by simp
  from exec_inv(2) [OF g1 b] c1 have g2: "good th2" and n2: "tls th2 \<noteq> None"
    and t2: "top (cur th2) = ?l" by (simp_all add: kept_def)
  have n: "nat ?l < length (stack (cur th2))"
    using g2 assms(2,3) by (simp add: good_def tls_wf_def)
  have ex: "exec (Try body handler) th = Some (Fallthrough, FLUX_CATCH_exit ?l th2)"
    using t c1(3) b by simp
  have "exec (Try body handler) th = Some (Fallthrough, FLUX_CATCH_exit ?l th2) \<and>
     FLUX_CATCH_exit ?l th2 = FLUX_CATCH_exit ?l th2 \<and>
     calls (FLUX_CATCH_exit ?l th2) = calls th2 \<and> top (cur th2) = ?l \<and>
     top (cur (FLUX_CATCH_exit ?l th2)) = top (cur th) \<and>
     \<not> active (stack (cur (FLUX_CATCH_exit ?l th2)) ! nat ?l) \<and>
     guards (stack (cur (FLUX_CATCH_exit ?l th2)) ! nat ?l) = guards (stack (cur th2) ! nat ?l) \<and>
     pool (cur (FLUX_CATCH_exit ?l th2)) = pool (cur th2)"
    using ex t2 n unfolding CATCH_exit_cur [OF n2] by simp
  then show ?thesis by (intro exI)
qed

theorem C8_normal_exit_runs_no_guard_witness:
  "tls_wf (cur thread_start) \<and> - 1 \<le> top (cur thread_start) \<and> top (cur thread_start) < 63 \<and>
   exec_list (defers [(1, 10), (2, 20)] ''main.c'' 6) (snd (FLUX_TRY thread_start))
     = Some (Fallthrough,
         snd (the (exec_list (defers [(1, 10), (2, 20)] ''main.c'' 6) (snd (FLUX_TRY thread_start))))) \<and>
   fst (the (exec (Try (defers [(1, 10), (2, 20)] ''main.c'' 6) []) thread_start)) = Fallthrough \<and>
   calls (snd (the (exec (Try (defers [(1, 10), (2, 20)] ''main.c'' 6) []) thread_start))) = []"
proof -
  have a: "tls_wf (cur thread_start)" by (rule start_wf)
  have b: "- 1 \<le> top (cur thread_start)" "top (cur thread_start) < 63" by (simp_all add: start_top)
  have c: "length [(1::nat, 10::nat), (2, 20)] \<le> 2048" by simp
  let ?body = "defers [(1, 10), (2, 20)] ''main.c'' 6"
  from scoped_defers [OF a b c, of "''main.c''" 6]
  obtain th1 th2 where t: "FLUX_TRY thread_start = (Fallthrough, th1)"
    and e: "exec_list ?body th1 = Some (Fallthrough, th2)"
    and c2: "calls th2 = calls thread_start"
    by (elim exE conjE) (rule that; assumption)
  have e': "exec_list ?body (snd (FLUX_TRY thread_start)) = Some (Fallthrough, th2)"
    unfolding t using e by simp
  from C8_normal_exit_runs_no_guard [OF a b e', of "[]"]
  obtain th3 where x: "exec (Try ?body []) thread_start = Some (Fallthrough, th3)"
    and c3: "calls th3 = calls th2"
    by (elim exE conjE) (rule that; assumption)
  show ?thesis
    unfolding x e' using a b c2 c3 by (simp add: start_calls)
qed

text \<open>
  C10. From a well-formed registry with \<open>top\<close> in \<open>-1..63\<close>: a whole block that returns
  leaves \<open>top\<close> in \<open>-1..63\<close>, and at its value before entry when the block falls through
  or its handler signals a failure to the enclosing scope; scope entry keeps \<open>top\<close> in
  \<open>-1..63\<close>, registration and signaling leave it unchanged, and inside a scope the normal
  exit and the unwind both decrement it by one.
\<close>

theorem C10_block_restores_top:
  assumes "tls_wf (cur th)" "- 1 \<le> top (cur th)" "top (cur th) \<le> 63"
  shows "(\<forall>c th'. exec (Try body handler) th = Some (c, th') \<longrightarrow>
            - 1 \<le> top (cur th') \<and> top (cur th') \<le> 63 \<and>
            (c = Fallthrough \<or> c = Longjmp \<longrightarrow> top (cur th') = top (cur th))) \<and>
         - 1 \<le> top (cur (snd (FLUX_TRY th))) \<and> top (cur (snd (FLUX_TRY th))) \<le> 63 \<and>
         top (cur (snd (FLUX_DEFER dt p f ln th))) = top (cur th) \<and>
         top (cur (snd (FLUX_THROW c0 m f ln th))) = top (cur th) \<and>
         (0 \<le> top (cur th) \<and> tls th \<noteq> None \<longrightarrow>
            top (cur (FLUX_CATCH_exit (top (cur th)) th)) = top (cur th) - 1 \<and>
            (\<forall>th'. FLUX_CATCH_unwind (top (cur th)) th = Some th' \<longrightarrow> top (cur th') = top (cur th) - 1))"
proof -
  have g: "good th" using assms by (simp add: good_def)
  have 1: "\<forall>c th'. exec (Try body handler) th = Some (c, th') \<longrightarrow>
            - 1 \<le> top (cur th') \<and> top (cur th') \<le> 63 \<and>
            (c = Fallthrough \<or> c = Longjmp \<longrightarrow> top (cur th') = top (cur th))"
    using exec_inv(1) [OF g, of "Try body handler"]
    by (auto simp add: kept_def good_def simp del: exec.simps)
  obtain c1 th1 where t: "FLUX_TRY th = (c1, th1)" by (cases "FLUX_TRY th")
  have 2: "- 1 \<le> top (cur (snd (FLUX_TRY th))) \<and> top (cur (snd (FLUX_TRY th))) \<le> 63"
    using TRY_inv [OF g t] assms(2,3) t by auto
  obtain c2 th2 where d: "FLUX_DEFER dt p f ln th = (c2, th2)" by (cases "FLUX_DEFER dt p f ln th")
  have 3: "top (cur (snd (FLUX_DEFER dt p f ln th))) = top (cur th)"
    using DEFER_inv [OF assms(1) d] d by simp
  obtain c3 th3 where e: "FLUX_THROW c0 m f ln th = (c3, th3)" by (cases "FLUX_THROW c0 m f ln th")
  have 4: "top (cur (snd (FLUX_THROW c0 m f ln th))) = top (cur th)"
    using THROW_inv [OF assms(1) e] e by simp
  have 5: "0 \<le> top (cur th) \<and> tls th \<noteq> None \<longrightarrow>
            top (cur (FLUX_CATCH_exit (top (cur th)) th)) = top (cur th) - 1 \<and>
            (\<forall>th'. FLUX_CATCH_unwind (top (cur th)) th = Some th' \<longrightarrow> top (cur th') = top (cur th) - 1)"
    using exit_inv [OF _ assms(1)] unwind_inv [OF _ assms(1)] by simp
  from 2 have 2: "- 1 \<le> top (cur (snd (FLUX_TRY th)))" "top (cur (snd (FLUX_TRY th))) \<le> 63"
    by simp_all
  show ?thesis
    apply (intro conjI)
         apply (rule 1)
        apply (rule 2(1))
       apply (rule 2(2))
      apply (rule 3)
     apply (rule 4)
    apply (rule 5)
    done
qed

subsection \<open>Nested scopes, the depth limit and failures outside a scope\<close>

lemma nested_overwrite:
  assumes wf: "tls_wf (cur th)" and lo: "- 1 \<le> top (cur th)" and hi: "top (cur th) < 62"
  shows "\<exists>th'. exec (Try [Defer d1 p1 f l1, Try [Defer d2 p2 f l2] [], Throw c m f l3] handler) th
       = exec_list handler th' \<and>
     calls th' = calls th @ filter callable [(d2, p2)]"
proof -
  let ?l = "top (cur th) + 1"
  have hi': "top (cur th) < 63" using hi by simp
  from TRY_props [OF wf lo hi']
  obtain th1 where t1: "FLUX_TRY th = (Fallthrough, th1)"
    and c1: "calls th1 = calls th" "tls th1 \<noteq> None" "tls_wf (cur th1)" "top (cur th1) = ?l"
      "in_stack (top (cur th1))" "idx (pool (cur th1)) = 0"
    and b1: "buf (stack (cur th1) ! nat (top (cur th1)))"
    by (elim exE conjE) (rule that; assumption)
  have n1: "nat ?l < length (stack (cur th1))" using wf_stack [OF c1(3,5)] c1(4) by simp
  \<comment> \<open>the outer registration takes slot 0\<close>
  have i1: "idx (pool (cur th1)) < 2048" using c1(6) by simp
  define th2 where "th2 = snd (FLUX_DEFER d1 p1 f l1 th1)"
  have d2: "FLUX_DEFER d1 p1 f l1 th1 = (Fallthrough, th2)"
    unfolding th2_def DEFER_ok [OF c1(3,5) i1] by simp
  have c2: "calls th2 = calls th" "tls th2 \<noteq> None" "tls_wf (cur th2)" "top (cur th2) = ?l"
    "guards (stack (cur th2) ! nat ?l) = Some 0" "buf (stack (cur th2) ! nat ?l)"
    unfolding th2_def DEFER_ok [OF c1(3,5) i1]
    using c1 b1 n1 by (simp_all add: tls_wf_def FLUX_POOL_SIZE_def)
  \<comment> \<open>the nested scope resets the cursor and takes slot 0 again\<close>
  have lo2: "- 1 \<le> top (cur th2)" and hi2: "top (cur th2) < 63" using c2(4) lo hi by simp_all
  define th3 where "th3 = snd (FLUX_TRY th2)"
  have t3: "FLUX_TRY th2 = (Fallthrough, th3)"
    unfolding th3_def TRY_enter [OF c2(3) lo2 hi2] by simp
  have n2: "nat ?l < length (stack (cur th2))" "nat (?l + 1) < length (stack (cur th2))"
    using c2(3) lo hi by (simp_all add: tls_wf_def)
  have ne: "nat (?l + 1) \<noteq> nat ?l" using lo by simp
  have c3: "calls th3 = calls th" "tls th3 \<noteq> None" "tls_wf (cur th3)" "top (cur th3) = ?l + 1"
    "in_stack (top (cur th3))" "idx (pool (cur th3)) = 0"
    "guards (stack (cur th3) ! nat (?l + 1)) = None"
    "guards (stack (cur th3) ! nat ?l) = Some 0" "buf (stack (cur th3) ! nat ?l)"
    unfolding th3_def TRY_enter [OF c2(3) lo2 hi2]
    using c2 n2 ne lo hi by (simp_all add: tls_wf_def FLUX_POOL_SIZE_def in_stack_def FLUX_MAX_DEPTH_def)
  have i3: "idx (pool (cur th3)) < 2048" using c3(6) by simp
  define th4 where "th4 = snd (FLUX_DEFER d2 p2 f l2 th3)"
  have d4: "FLUX_DEFER d2 p2 f l2 th3 = (Fallthrough, th4)"
    unfolding th4_def DEFER_ok [OF c3(3,5) i3] by simp
  have n3: "nat ?l < length (stack (cur th3))" "nat (?l + 1) < length (stack (cur th3))"
    using c3(3) lo hi by (simp_all add: tls_wf_def)
  have c4: "calls th4 = calls th" "tls th4 \<noteq> None" "tls_wf (cur th4)" "top (cur th4) = ?l + 1"
    "guards (stack (cur th4) ! nat ?l) = Some 0" "buf (stack (cur th4) ! nat ?l)"
    "pool_guards (pool (cur th4)) ! 0 = \<lparr>dtor = d2, ptr = p2, next' = None\<rparr>"
    unfolding th4_def DEFER_ok [OF c3(3,5) i3]
    using c3 n3 ne by (simp_all add: tls_wf_def FLUX_POOL_SIZE_def)
  define th5 where "th5 = FLUX_CATCH_exit (?l + 1) th4"
  have inner: "exec (Try [Defer d2 p2 f l2] []) th2 = Some (Fallthrough, th5)"
    unfolding th5_def using t3 d4 c3(4) by simp
  have n4: "nat ?l < length (stack (cur th4))" "nat (?l + 1) < length (stack (cur th4))"
    using c4(3) lo hi by (simp_all add: tls_wf_def)
  have c5: "calls th5 = calls th" "tls th5 \<noteq> None" "tls_wf (cur th5)" "top (cur th5) = ?l"
    "guards (stack (cur th5) ! nat ?l) = Some 0" "buf (stack (cur th5) ! nat ?l)"
    "pool_guards (pool (cur th5)) ! 0 = \<lparr>dtor = d2, ptr = p2, next' = None\<rparr>"
    unfolding th5_def CATCH_exit_cur [OF c4(2)]
    using c4 n4 ne by (simp_all add: tls_wf_def)
  \<comment> \<open>the failure of the outer scope\<close>
  have in5: "in_stack (top (cur th5))"
    unfolding c5(4) using lo hi by (simp add: in_stack_def FLUX_MAX_DEPTH_def)
  define th6 where "th6 = snd (FLUX_THROW c m f l3 th5)"
  have t6: "FLUX_THROW c m f l3 th5 = (Longjmp, th6)"
    unfolding th6_def THROW_in [OF c5(3) in5] using c5(4,6) by simp
  have n5: "nat ?l < length (stack (cur th5))" using c5(3) lo hi by (simp add: tls_wf_def)
  have c6: "calls th6 = calls th" "tls th6 \<noteq> None" "top (cur th6) = ?l"
    "guards (stack (cur th6) ! nat ?l) = Some 0"
    "pool_guards (pool (cur th6)) ! 0 = \<lparr>dtor = d2, ptr = p2, next' = None\<rparr>"
    unfolding th6_def THROW_in [OF c5(3) in5]
    using c5 n5 by simp_all
  have body: "exec_list [Defer d1 p1 f l1, Try [Defer d2 p2 f l2] [], Throw c m f l3] th1
      = Some (Longjmp, th6)"
    using d2 inner t6 by (simp del: exec.simps(3))
  have path: "guard_path (pool_guards (pool (cur th6))) (Some 0) [0]"
    using c6(5) by simp
  have rel: "flux_release_guards (pool_guards (pool (cur th6))) (guards (stack (cur th6) ! nat ?l)) (calls th6)
      = Some (calls th @ filter callable [(d2, p2)])"
    unfolding c6(4) release_path [OF path] using c6(1,5) by (simp add: guard_call_def)
  define th7 where "th7 = th6\<lparr>tls := Some ((set_scope ?l (\<lambda>s. s\<lparr>active := False\<rparr>) (cur th6))\<lparr>top := top (cur th6) - 1\<rparr>),
              calls := calls th @ filter callable [(d2, p2)]\<rparr>"
  have unw: "FLUX_CATCH_unwind ?l th6 = Some th7"
    unfolding th7_def by (rule CATCH_unwind_cur [OF c6(2) rel])
  have "exec (Try [Defer d1 p1 f l1, Try [Defer d2 p2 f l2] [], Throw c m f l3] handler) th
       = exec_list handler th7"
    using t1 c1(4) body c6(3) unw by simp
  moreover have "calls th7 = calls th @ filter callable [(d2, p2)]"
    unfolding th7_def by simp
  ultimately show ?thesis by (intro exI conjI)
qed


text \<open>
  C2. A scope registers the guard \<open>(1, 10)\<close>, runs a nested scope that registers \<open>(2, 20)\<close>
  and exits normally, and then signals a failure: its unwind calls \<open>(2, 20)\<close>, the guard of
  the nested scope, and never \<open>(1, 10)\<close>.
\<close>

theorem C2_inner_scope_overwrites_outer_guard:
  "exec (Try [Defer 1 10 ''main.c'' 6, Try [Defer 2 20 ''main.c'' 8] [],
            Throw 4 (Some ''bad input'') ''main.c'' 10] []) thread_start \<noteq> None \<and>
   fst (the (exec (Try [Defer 1 10 ''main.c'' 6, Try [Defer 2 20 ''main.c'' 8] [],
            Throw 4 (Some ''bad input'') ''main.c'' 10] []) thread_start)) = Fallthrough \<and>
   calls (snd (the (exec (Try [Defer 1 10 ''main.c'' 6, Try [Defer 2 20 ''main.c'' 8] [],
            Throw 4 (Some ''bad input'') ''main.c'' 10] []) thread_start))) = [(2, 20)]"
proof -
  have a: "tls_wf (cur thread_start)" by (rule start_wf)
  have b: "- 1 \<le> top (cur thread_start)" "top (cur thread_start) < 62" by (simp_all add: start_top)
  from nested_overwrite [OF a b, of 1 10 "''main.c''" 6 2 20 8 4 "Some ''bad input''" 10 "[]"]
  obtain th' where x: "exec (Try [Defer 1 10 ''main.c'' 6, Try [Defer 2 20 ''main.c'' 8] [],
            Throw 4 (Some ''bad input'') ''main.c'' 10] []) thread_start = exec_list [] th'"
    and c: "calls th' = calls thread_start @ filter callable [(2::nat, 20::nat)]"
    by (elim exE conjE) (rule that; assumption)
  show ?thesis unfolding x using c by (simp add: start_calls callable_def)
qed

lemma nest_runs:
  "good th \<Longrightarrow> top (cur th) + int n \<le> 63 \<Longrightarrow>
   \<exists>th'. exec_list (nest n) th = Some (Fallthrough, th')"
proof (induction n arbitrary: th)
  case 0
  then show ?case by simp
next
  case (Suc n)
  from Suc.prems have wf: "tls_wf (cur th)" and lo: "- 1 \<le> top (cur th)" and hi: "top (cur th) < 63"
    by (simp_all add: good_def)
  from TRY_props [OF wf lo hi]
  obtain th1 where t: "FLUX_TRY th = (Fallthrough, th1)"
    and c1: "tls_wf (cur th1)" "top (cur th1) = top (cur th) + 1"
    by (elim exE conjE) (rule that; assumption)
  have g1: "good th1" using c1 lo hi by (simp add: good_def)
  have "top (cur th1) + int n \<le> 63" using c1(2) Suc.prems(2) by simp
  from Suc.IH [OF g1 this] obtain th2 where "exec_list (nest n) th1 = Some (Fallthrough, th2)"
    by (elim exE)
  with t show ?case by simp
qed

lemma nest_aborts:
  "good th \<Longrightarrow> 63 < top (cur th) + int n \<Longrightarrow>
   \<exists>th'. exec_list (nest n) th = Some (Abort, th')"
proof (induction n arbitrary: th)
  case 0
  then show ?case by (simp add: good_def)
next
  case (Suc n)
  from Suc.prems have wf: "tls_wf (cur th)" and lo: "- 1 \<le> top (cur th)" and le: "top (cur th) \<le> 63"
    by (simp_all add: good_def)
  show ?case
  proof (cases "top (cur th) < 63")
    case False
    then have "63 \<le> top (cur th)" by simp
    from TRY_abort [OF this] show ?thesis by simp
  next
    case True
    from TRY_props [OF wf lo True]
    obtain th1 where t: "FLUX_TRY th = (Fallthrough, th1)"
      and c1: "tls_wf (cur th1)" "top (cur th1) = top (cur th) + 1"
      by (elim exE conjE) (rule that; assumption)
    have g1: "good th1" using c1 lo True by (simp add: good_def)
    have "63 < top (cur th1) + int n" using c1(2) Suc.prems(2) by simp
    from Suc.IH [OF g1 this] obtain th2 where "exec_list (nest n) th1 = Some (Abort, th2)"
      by (elim exE)
    with t show ?thesis by simp
  qed
qed

lemma start_good: "good thread_start"
  unfolding good_def using start_wf by (simp add: start_top)

text \<open>
  C4. In a thread that has not used the library before, 63 nested blocks run to the end,
  and with 64 nested blocks the process aborts: the registry comes from \<^verbatim>\<open>calloc\<close> with
  \<open>top = 0\<close>, so that the 64th entry finds \<open>top + 1 = 64\<close>.
\<close>

theorem C4_fresh_thread_64th_entry_aborts:
  "fst (the (exec_list (nest 63) thread_start)) = Fallthrough \<and>
   fst (the (exec_list (nest 64) thread_start)) = Abort"
proof -
  have "top (cur thread_start) + int 63 \<le> 63" by (simp add: start_top)
  from nest_runs [OF start_good this] obtain th1
    where 1: "exec_list (nest 63) thread_start = Some (Fallthrough, th1)" by (elim exE)
  have "63 < top (cur thread_start) + int 64" by (simp add: start_top)
  from nest_aborts [OF start_good this] obtain th2
    where 2: "exec_list (nest 64) thread_start = Some (Abort, th2)" by (elim exE)
  show ?thesis unfolding 1 2 by simp
qed

lemma start_stderr: "stderr thread_start = []"
  unfolding thread_start_def by simp

theorem C10_block_restores_top_witness:
  "tls_wf (cur (snd (FLUX_TRY thread_start))) \<and> - 1 \<le> top (cur (snd (FLUX_TRY thread_start))) \<and>
   top (cur (snd (FLUX_TRY thread_start))) \<le> 63 \<and>
   exec (Try (defers [(1, 10)] ''main.c'' 6 @ [Throw 4 (Some ''bad input'') ''main.c'' 9]) [])
      (snd (FLUX_TRY thread_start)) \<noteq> None \<and>
   top (cur (snd (the (exec (Try (defers [(1, 10)] ''main.c'' 6 @ [Throw 4 (Some ''bad input'') ''main.c'' 9]) [])
      (snd (FLUX_TRY thread_start)))))) = top (cur (snd (FLUX_TRY thread_start))) \<and>
   0 \<le> top (cur (snd (FLUX_TRY thread_start))) \<and> tls (snd (FLUX_TRY thread_start)) \<noteq> None \<and>
   top (cur (FLUX_CATCH_exit (top (cur (snd (FLUX_TRY thread_start)))) (snd (FLUX_TRY thread_start))))
     = top (cur (snd (FLUX_TRY thread_start))) - 1"
proof -
  have a: "tls_wf (cur thread_start)" by (rule start_wf)
  have b: "- 1 \<le> top (cur thread_start)" "top (cur thread_start) < 63" by (simp_all add: start_top)
  from TRY_props [OF a b]
  obtain th1 where t: "FLUX_TRY thread_start = (Fallthrough, th1)"
    and c1: "tls th1 \<noteq> None" "tls_wf (cur th1)" "top (cur th1) = top (cur thread_start) + 1"
    by (elim exE conjE) (rule that; assumption)
  have t1: "top (cur th1) = 1" using c1(3) by (simp add: start_top)
  have b1: "- 1 \<le> top (cur th1)" "top (cur th1) < 63" "top (cur th1) \<le> 63" using t1 by simp_all
  have len: "length [(1::nat, 10::nat)] \<le> 2048" by simp
  let ?p = "Try (defers [(1, 10)] ''main.c'' 6 @ [Throw 4 (Some ''bad input'') ''main.c'' 9]) []"
  from try_defers_throw [OF c1(2) b1(1,2) len, of "''main.c''" 6 4 "Some ''bad input''" "''main.c''" 9 "[]"]
  obtain th4 where x: "exec ?p th1 = exec_list [] th4"
    by (elim exE conjE) (rule that; assumption)
  then have x: "exec ?p th1 = Some (Fallthrough, th4)" by simp
  note k = C10_block_restores_top [OF c1(2) b1(1,3), of "defers [(1, 10)] ''main.c'' 6 @ [Throw 4 (Some ''bad input'') ''main.c'' 9]" "[]" 1 1 "''main.c''" 6 4 None]
  note k1 = k [THEN conjunct1, THEN spec, THEN spec, THEN mp, OF x]
  then have r: "top (cur th4) = top (cur th1)" by simp
  note k2 = k [THEN conjunct2, THEN conjunct2, THEN conjunct2, THEN conjunct2, THEN conjunct2]
  with c1(1) t1 have e: "top (cur (FLUX_CATCH_exit (top (cur th1)) th1)) = top (cur th1) - 1"
    by simp
  show ?thesis
    unfolding t using c1(1,2) b1 r e t1 x by (simp del: exec.simps)
qed

subsection \<open>The initial value of \<open>top\<close>\<close>

text \<open>
  With \<open>top = - 1\<close> in the registry, the value that \<^verbatim>\<open>FLUX_THROW\<close> takes for an empty
  stack, the same check lets 64 nested blocks run and aborts in the 65th.
\<close>

lemma depth_from_empty_stack:
  "fst (the (exec_list (nest 64) (thread_start\<lparr>tls := Some (calloc_tls\<lparr>top := - 1\<rparr>)\<rparr>))) = Fallthrough \<and>
   fst (the (exec_list (nest 65) (thread_start\<lparr>tls := Some (calloc_tls\<lparr>top := - 1\<rparr>)\<rparr>))) = Abort"
proof -
  let ?th = "thread_start\<lparr>tls := Some (calloc_tls\<lparr>top := - 1\<rparr>)\<rparr>"
  have g: "good ?th"
    unfolding good_def tls_wf_def by (simp add: calloc_tls_def FLUX_POOL_SIZE_def)
  have "top (cur ?th) + int 64 \<le> 63" by simp
  from nest_runs [OF g this] obtain th1
    where 1: "exec_list (nest 64) ?th = Some (Fallthrough, th1)" by (elim exE)
  have "63 < top (cur ?th) + int 65" by simp
  from nest_aborts [OF g this] obtain th2
    where 2: "exec_list (nest 65) ?th = Some (Abort, th2)" by (elim exE)
  show ?thesis unfolding 1 2 by simp
qed

text \<open>
  In a thread that has not used the library, a failure signaled outside every block finds
  \<open>top = 0\<close> and calls \<^verbatim>\<open>longjmp\<close> on the buffer of \<^verbatim>\<open>stack[0]\<close>, which no
  \<^verbatim>\<open>setjmp\<close> has filled; nothing is written to \<^verbatim>\<open>stderr\<close>.
\<close>

lemma fresh_thread_throw:
  "fst (FLUX_THROW c m f ln thread_start) = BadJmpBuf \<and>
   stderr (snd (FLUX_THROW c m f ln thread_start)) = []"
proof -
  have i: "in_stack (top (cur thread_start))"
    by (simp add: start_top in_stack_def FLUX_MAX_DEPTH_def)
  have b: "\<not> buf (stack (cur thread_start) ! nat (top (cur thread_start)))"
    unfolding cur_thread_start by (simp add: calloc_tls_def zero_scope_def)
  show ?thesis
    unfolding THROW_in [OF start_wf i] using b by (simp add: start_stderr)
qed

subsection \<open>Outside every scope\<close>

lemma base_same_refl: "base_same th th"
  unfolding base_same_def by simp

lemma base_same_trans: "base_same a b \<Longrightarrow> base_same b c \<Longrightarrow> base_same a c"
  unfolding base_same_def by simp

lemma TRY_base:
  assumes "good th" "0 \<le> top (cur th)" "FLUX_TRY th = (c, th')"
  shows "base_same th th'"
proof (cases "top (cur th) < 63")
  case True
  have wf: "tls_wf (cur th)" and lo: "- 1 \<le> top (cur th)" using assms(1) by (simp_all add: good_def)
  have ne: "nat (top (cur th) + 1) \<noteq> 0" using assms(2) by simp
  show ?thesis
    using assms(3) ne unfolding TRY_enter [OF wf lo True] base_same_def by auto
next
  case False
  then have "63 \<le> top (cur th)" by simp
  from TRY_abort [OF this] assms(3) show ?thesis unfolding base_same_def by auto
qed

lemma THROW_base:
  assumes "tls_wf (cur th)" "FLUX_THROW c m f ln th = (r, th')"
  shows "base_same th th' \<and>
     (in_stack (top (cur th)) \<longrightarrow> stderr th' = stderr th \<and>
          r = (if buf (stack (cur th) ! nat (top (cur th))) then Longjmp else BadJmpBuf))"
proof (cases "in_stack (top (cur th))")
  case True
  have n: "nat (top (cur th)) < length (stack (cur th))" by (rule wf_stack [OF assms(1) True])
  show ?thesis
    using assms(2) True n unfolding THROW_in [OF assms(1) True] base_same_def
    by (cases "nat (top (cur th)) = 0") (auto split: if_splits)
next
  case False
  from THROW_out [OF False, of c m f ln] assms(2) False show ?thesis
    unfolding base_same_def by auto
qed

lemma DEFER_base:
  assumes "tls_wf (cur th)" "FLUX_DEFER dt p f ln th = (r, th')"
  shows "base_same th th'"
proof (cases "idx (pool (cur th)) < 2048")
  case True
  show ?thesis
  proof (cases "in_stack (top (cur th))")
    case ins: True
    have n: "nat (top (cur th)) < length (stack (cur th))" by (rule wf_stack [OF assms(1) ins])
    show ?thesis
      using assms(2) n unfolding DEFER_ok [OF assms(1) ins True] base_same_def
      by (cases "nat (top (cur th)) = 0") auto
  next
    case False
    with assms True show ?thesis
      unfolding FLUX_DEFER_def get_tls_cur flux_acquire_guard_def FLUX_POOL_SIZE_def Let_def
        base_same_def
      by auto
  qed
next
  case False
  then have "2048 \<le> idx (pool (cur th))" by simp
  from DEFER_limit [OF this, of dt p f ln] assms(2)
  have t: "FLUX_THROW 5 (Some ''resource limit exceeded'') f ln (th\<lparr>tls := Some (cur th)\<rparr>) = (r, th')"
    by simp
  have "tls_wf (cur (th\<lparr>tls := Some (cur th)\<rparr>))" using assms(1) by simp
  from THROW_base [OF this t] show ?thesis unfolding base_same_def by simp
qed

lemma exit_base:
  assumes "tls th \<noteq> None" "0 < l"
  shows "base_same th (FLUX_CATCH_exit l th)"
  unfolding CATCH_exit_cur [OF assms(1)] base_same_def using assms(2) by simp

lemma unwind_base:
  assumes "tls th \<noteq> None" "0 < l" "FLUX_CATCH_unwind l th = Some th'"
  shows "base_same th th'"
  using CATCH_unwind_Some [OF assms(1,3)] assms(2) unfolding base_same_def by auto


lemma exec_base:
  shows "good th \<Longrightarrow> 0 \<le> top (cur th) \<Longrightarrow> exec s th = Some (c, th') \<Longrightarrow> base_same th th'"
    and "good th \<Longrightarrow> 0 \<le> top (cur th) \<Longrightarrow> exec_list ss th = Some (c, th') \<Longrightarrow> base_same th th'"
proof (induction s th and ss th arbitrary: c th' and c th' rule: exec_exec_list.induct)
  case (1 dt p f ln th)
  then show ?case using DEFER_base [of th dt p f ln c th'] by (simp add: good_def)
next
  case (2 c0 m f ln th)
  then show ?case using THROW_base [of th c0 m f ln c th'] by (simp add: good_def)
next
  case (3 body handler th)
  obtain c1 th1 where t: "FLUX_TRY th = (c1, th1)" by (cases "FLUX_TRY th")
  note ti = TRY_inv [OF "3.prems"(1) t]
  note tb = TRY_base [OF "3.prems"(1,2) t]
  show ?case
  proof (cases "c1 = Fallthrough")
    case False
    with "3.prems"(3) t tb show ?thesis by auto
  next
    case True
    from ti True have l: "top (cur th1) = top (cur th) + 1" and lt: "top (cur th) < 63"
      and n1: "tls th1 \<noteq> None" and w1: "tls_wf (cur th1)" by auto
    have g1: "good th1" using "3.prems"(1,2) l lt w1 by (simp add: good_def)
    have p1: "0 \<le> top (cur th1)" "0 < top (cur th1)" using l "3.prems"(2) by simp_all
    from "3.prems"(3) t True obtain c2 th2 where b: "exec_list body th1 = Some (c2, th2)"
      by (auto split: option.splits)
    have f1: "fst (FLUX_TRY th) = Fallthrough" "snd (FLUX_TRY th) = th1" using t True by simp_all
    have b2: "base_same th1 th2" using "3.IH"(1) [of c2 th2] f1 g1 p1(1) b by simp
    have k2: "kept th1 c2 th2" by (rule exec_inv(2) [OF g1 b])
    then have g2: "good th2" and n2: "tls th2 \<noteq> None" using n1 by (simp_all add: kept_def)
    show ?thesis
    proof (cases "c2 = Fallthrough")
      case c2: True
      have "th' = FLUX_CATCH_exit (top (cur th1)) th2"
        using "3.prems"(3) t True b c2 by simp
      with exit_base [OF n2 p1(2)] have "base_same th2 th'" by simp
      with tb b2 show ?thesis by (blast intro: base_same_trans)
    next
      case nf: False
      show ?thesis
      proof (cases "c2 = Longjmp \<and> top (cur th2) = top (cur th1)")
        case False
        with "3.prems"(3) t True b nf have "th' = th2" by auto
        with tb b2 show ?thesis by (blast intro: base_same_trans)
      next
        case lj: True
        from "3.prems"(3) t True b nf lj obtain th3 where
          u: "FLUX_CATCH_unwind (top (cur th1)) th2 = Some th3"
          and h: "exec_list handler th3 = Some (c, th')"
          by (auto split: option.splits)
        from unwind_inv [OF n2 _ u] g2 have n3: "tls th3 \<noteq> None" and w3: "tls_wf (cur th3)"
          and t3: "top (cur th3) = top (cur th2) - 1" by (simp_all add: good_def)
        have g3: "good th3" using w3 t3 lj l "3.prems"(1) lt by (simp add: good_def)
        have p3: "0 \<le> top (cur th3)" using t3 lj l "3.prems"(2) by simp
        have b3: "base_same th2 th3" by (rule unwind_base [OF n2 p1(2) u])
        have "base_same th3 th'"
          using "3.IH"(2) [of "(c2, th2)" th3 c th'] f1 b nf lj u g3 p3 h by simp
        with tb b2 b3 show ?thesis by (blast intro: base_same_trans)
      qed
    qed
  qed
next
  case (4 th)
  then show ?case by (simp add: base_same_refl)
next
  case (5 s ss th)
  from "5.prems"(3) obtain c1 th1 where e: "exec s th = Some (c1, th1)"
    by (auto split: option.splits)
  from "5.IH"(1) [OF "5.prems"(1,2) e] have b1: "base_same th th1" .
  from exec_inv(1) [OF "5.prems"(1) e] have k1: "kept th c1 th1" by simp
  show ?case
  proof (cases "c1 = Fallthrough")
    case True
    with "5.prems"(3) e have r: "exec_list ss th1 = Some (c, th')" by simp
    from k1 True have g1: "good th1" and p1: "0 \<le> top (cur th1)"
      using "5.prems"(2) by (simp_all add: kept_def)
    from "5.IH"(2) [of "(c1, th1)" c th'] e True g1 p1 r have "base_same th1 th'" by simp
    with b1 show ?thesis by (rule base_same_trans)
  next
    case False
    with "5.prems"(3) e b1 show ?thesis by simp
  qed
qed

lemma start_base: "\<not> buf (stack (cur thread_start) ! 0)" "\<not> active (stack (cur thread_start) ! 0)"
  unfolding cur_thread_start by (simp_all add: calloc_tls_def zero_scope_def)

lemma start_idx: "idx (pool (cur thread_start)) = 0"
  unfolding cur_thread_start by (simp add: calloc_tls_def)

lemma outside_scope:
  assumes "exec_list prog thread_start = Some (Fallthrough, th)"
  shows "tls_wf (cur th)" "top (cur th) = 0" "\<not> buf (stack (cur th) ! 0)"
    "\<not> active (stack (cur th) ! 0)"
proof -
  have p: "0 \<le> top (cur thread_start)" by (simp add: start_top)
  from exec_inv(2) [OF start_good assms] show "tls_wf (cur th)" "top (cur th) = 0"
    by (simp_all add: kept_def good_def start_top)
  from exec_base(2) [OF start_good p assms] start_base
  show "\<not> buf (stack (cur th) ! 0)" "\<not> active (stack (cur th) ! 0)"
    by (simp_all add: base_same_def)
qed

lemma throw_outside_scope:
  assumes "tls_wf (cur th)" "top (cur th) = 0" "\<not> buf (stack (cur th) ! 0)"
  shows "fst (FLUX_THROW c m f ln th) = BadJmpBuf \<and> stderr (snd (FLUX_THROW c m f ln th)) = stderr th"
proof -
  have i: "in_stack (top (cur th))" using assms(2) by (simp add: in_stack_def FLUX_MAX_DEPTH_def)
  show ?thesis unfolding THROW_in [OF assms(1) i] using assms(2,3) by simp
qed

lemma defer_outside_scope:
  assumes "tls_wf (cur th)" "top (cur th) = 0" "\<not> buf (stack (cur th) ! 0)"
  shows "fst (FLUX_DEFER dt p f ln th) = (if idx (pool (cur th)) < FLUX_POOL_SIZE then Fallthrough else BadJmpBuf) \<and>
     (idx (pool (cur th)) < FLUX_POOL_SIZE \<longrightarrow>
        guards (stack (cur (snd (FLUX_DEFER dt p f ln th))) ! 0) = Some (nat (idx (pool (cur th)))))"
proof (cases "idx (pool (cur th)) < 2048")
  case True
  have i: "in_stack (top (cur th))" using assms(2) by (simp add: in_stack_def FLUX_MAX_DEPTH_def)
  have n: "0 < length (stack (cur th))" using assms(1) by (simp add: tls_wf_def)
  show ?thesis
    unfolding DEFER_ok [OF assms(1) i True] using True assms(2) n
    by (simp add: FLUX_POOL_SIZE_def)
next
  case False
  then have l: "2048 \<le> idx (pool (cur th))" by simp
  have w: "tls_wf (cur (th\<lparr>tls := Some (cur th)\<rparr>))" "top (cur (th\<lparr>tls := Some (cur th)\<rparr>)) = 0"
    "\<not> buf (stack (cur (th\<lparr>tls := Some (cur th)\<rparr>)) ! 0)"
    using assms by simp_all
  show ?thesis
    unfolding DEFER_limit [OF l] using throw_outside_scope [OF w] False
    by (simp add: FLUX_POOL_SIZE_def)
qed

text \<open>
  C5. In a thread that has not entered a block yet, and after any run of complete blocks
  that fell through, no scope is active and \<open>top\<close> is \<open>0\<close>, not \<open>-1\<close>. There
  \<^verbatim>\<open>FLUX_THROW\<close>, for every code and message, stores the error in \<^verbatim>\<open>stack[0]\<close> and calls
  \<^verbatim>\<open>longjmp\<close> on its jump buffer, which no \<^verbatim>\<open>setjmp\<close> has filled: it writes nothing to
  \<^verbatim>\<open>stderr\<close> and does not call \<^verbatim>\<open>abort\<close>.
\<close>

theorem C5_throw_outside_scope_neither_prints_nor_aborts:
  "fst (FLUX_THROW c m f ln thread_start) = BadJmpBuf \<and>
   stderr (snd (FLUX_THROW c m f ln thread_start)) = [] \<and>
   (exec_list prog thread_start = Some (Fallthrough, th) \<longrightarrow>
      top (cur th) = 0 \<and> \<not> active (stack (cur th) ! 0) \<and>
      fst (FLUX_THROW c m f ln th) = BadJmpBuf \<and>
      stderr (snd (FLUX_THROW c m f ln th)) = stderr th)"
proof (intro conjI impI)
  have s: "top (cur thread_start) = 0" by (rule start_top)
  from throw_outside_scope [OF start_wf s start_base(1), of c m f ln]
  show "fst (FLUX_THROW c m f ln thread_start) = BadJmpBuf"
    "stderr (snd (FLUX_THROW c m f ln thread_start)) = []"
    by (simp_all add: start_stderr)
next
  assume a: "exec_list prog thread_start = Some (Fallthrough, th)"
  note o = outside_scope [OF a]
  show "top (cur th) = 0" by (rule o(2))
  show "\<not> active (stack (cur th) ! 0)" by (rule o(4))
  from throw_outside_scope [OF o(1,2,3), of c m f ln]
  show "fst (FLUX_THROW c m f ln th) = BadJmpBuf"
    "stderr (snd (FLUX_THROW c m f ln th)) = stderr th"
    by simp_all
qed

lemma caught_block_run:
  "\<exists>th. exec_list [Try (defers [(1, 10)] ''main.c'' 6 @ [Throw 3 (Some ''parse'') ''main.c'' 8]) []]
       thread_start = Some (Fallthrough, th) \<and> stderr th = [] \<and> calls th = [(1, 10)]"
proof -
  have b: "- 1 \<le> top (cur thread_start)" "top (cur thread_start) < 63" by (simp_all add: start_top)
  have len: "length [(1::nat, 10::nat)] \<le> 2048" by simp
  from try_defers_throw [OF start_wf b len, of "''main.c''" 6 3 "Some ''parse''" "''main.c''" 8 "[]"]
  obtain th4 where x: "exec (Try (defers [(1, 10)] ''main.c'' 6 @ [Throw 3 (Some ''parse'') ''main.c'' 8]) [])
        thread_start = exec_list [] th4"
    and c: "calls th4 = calls thread_start @ rev (filter callable [(1::nat, 10::nat)])"
    and e: "stderr th4 = stderr thread_start"
    by (elim exE conjE) (rule that; assumption)
  have "exec_list [Try (defers [(1, 10)] ''main.c'' 6 @ [Throw 3 (Some ''parse'') ''main.c'' 8]) []]
       thread_start = Some (Fallthrough, th4)"
    unfolding exec_list.simps x by simp
  moreover have "stderr th4 = []" using e by (simp add: start_stderr)
  moreover have "calls th4 = [(1, 10)]" using c by (simp add: start_calls callable_def)
  ultimately show ?thesis by (intro exI conjI)
qed

theorem C5_throw_outside_scope_neither_prints_nor_aborts_witness:
  "exec_list [Try (defers [(1, 10)] ''main.c'' 6 @ [Throw 3 (Some ''parse'') ''main.c'' 8]) []] thread_start
     = Some (Fallthrough,
         snd (the (exec_list [Try (defers [(1, 10)] ''main.c'' 6 @ [Throw 3 (Some ''parse'') ''main.c'' 8]) []]
            thread_start))) \<and>
   fst (FLUX_THROW 4 (Some ''bad input'') ''main.c'' 12
      (snd (the (exec_list [Try (defers [(1, 10)] ''main.c'' 6 @ [Throw 3 (Some ''parse'') ''main.c'' 8]) []]
            thread_start)))) = BadJmpBuf \<and>
   stderr (snd (FLUX_THROW 4 (Some ''bad input'') ''main.c'' 12
      (snd (the (exec_list [Try (defers [(1, 10)] ''main.c'' 6 @ [Throw 3 (Some ''parse'') ''main.c'' 8]) []]
            thread_start))))) = []"
proof -
  from caught_block_run obtain th
    where x: "exec_list [Try (defers [(1, 10)] ''main.c'' 6 @ [Throw 3 (Some ''parse'') ''main.c'' 8]) []]
       thread_start = Some (Fallthrough, th)" and e: "stderr th = []"
    by (elim exE conjE) (rule that; assumption)
  note k = C5_throw_outside_scope_neither_prints_nor_aborts
    [of 4 "Some ''bad input''" "''main.c''" 12
      "[Try (defers [(1, 10)] ''main.c'' 6 @ [Throw 3 (Some ''parse'') ''main.c'' 8]) []]" th,
      THEN conjunct2, THEN conjunct2, THEN mp, OF x]
  show ?thesis unfolding x using k e by simp
qed

text \<open>
  C9. In the same states \<^verbatim>\<open>FLUX_DEFER\<close> finds \<open>top = 0\<close>: it never indexes outside the
  stack array. While the pool has a free slot it falls through and links the claimed guard
  onto \<^verbatim>\<open>stack[0]\<close>, a record that is not active; with the pool exhausted it goes the way
  of \<^verbatim>\<open>FLUX_THROW\<close> above.
\<close>

theorem C9_defer_outside_scope_stays_in_bounds:
  "fst (FLUX_DEFER dt p f ln thread_start) = Fallthrough \<and>
   guards (stack (cur (snd (FLUX_DEFER dt p f ln thread_start))) ! 0) = Some 0 \<and>
   (exec_list prog thread_start = Some (Fallthrough, th) \<longrightarrow>
      top (cur th) = 0 \<and> \<not> active (stack (cur th) ! 0) \<and>
      fst (FLUX_DEFER dt p f ln th) \<noteq> OutOfBounds \<and>
      fst (FLUX_DEFER dt p f ln th)
        = (if idx (pool (cur th)) < FLUX_POOL_SIZE then Fallthrough else BadJmpBuf) \<and>
      (idx (pool (cur th)) < FLUX_POOL_SIZE \<longrightarrow>
         guards (stack (cur (snd (FLUX_DEFER dt p f ln th))) ! 0) = Some (nat (idx (pool (cur th))))))"
proof (intro conjI impI)
  have s: "top (cur thread_start) = 0" by (rule start_top)
  from defer_outside_scope [OF start_wf s start_base(1), of dt p f ln]
  show "fst (FLUX_DEFER dt p f ln thread_start) = Fallthrough"
    "guards (stack (cur (snd (FLUX_DEFER dt p f ln thread_start))) ! 0) = Some 0"
    by (simp_all add: start_idx FLUX_POOL_SIZE_def)
next
  assume a: "exec_list prog thread_start = Some (Fallthrough, th)"
  note o = outside_scope [OF a]
  note d = defer_outside_scope [OF o(1,2,3), of dt p f ln]
  show "top (cur th) = 0" by (rule o(2))
  show "\<not> active (stack (cur th) ! 0)" by (rule o(4))
  show "fst (FLUX_DEFER dt p f ln th)
        = (if idx (pool (cur th)) < FLUX_POOL_SIZE then Fallthrough else BadJmpBuf)"
    using d by simp
  then show "fst (FLUX_DEFER dt p f ln th) \<noteq> OutOfBounds" by simp
next
  assume a: "exec_list prog thread_start = Some (Fallthrough, th)"
    and i: "idx (pool (cur th)) < FLUX_POOL_SIZE"
  note o = outside_scope [OF a]
  from defer_outside_scope [OF o(1,2,3), of dt p f ln] i
  show "guards (stack (cur (snd (FLUX_DEFER dt p f ln th))) ! 0) = Some (nat (idx (pool (cur th))))"
    by simp
qed

theorem C9_defer_outside_scope_stays_in_bounds_witness:
  "exec_list [] thread_start = Some (Fallthrough, thread_start) \<and>
   idx (pool (cur thread_start)) < FLUX_POOL_SIZE \<and>
   fst (FLUX_DEFER 1 10 ''main.c'' 4 thread_start) = Fallthrough \<and>
   guards (stack (cur (snd (FLUX_DEFER 1 10 ''main.c'' 4 thread_start))) ! 0) = Some 0 \<and>
   exec_list [Try (defers [(1, 10)] ''main.c'' 6 @ [Throw 3 (Some ''parse'') ''main.c'' 8]) []] thread_start
     = Some (Fallthrough,
         snd (the (exec_list [Try (defers [(1, 10)] ''main.c'' 6 @ [Throw 3 (Some ''parse'') ''main.c'' 8]) []]
            thread_start))) \<and>
   fst (FLUX_DEFER 1 10 ''main.c'' 12
      (snd (the (exec_list [Try (defers [(1, 10)] ''main.c'' 6 @ [Throw 3 (Some ''parse'') ''main.c'' 8]) []]
            thread_start)))) \<noteq> OutOfBounds"
proof -
  have x0: "exec_list [] thread_start = Some (Fallthrough, thread_start)" by simp
  have i0: "idx (pool (cur thread_start)) < FLUX_POOL_SIZE"
    by (simp add: start_idx FLUX_POOL_SIZE_def)
  note k0 = C9_defer_outside_scope_stays_in_bounds
    [of 1 10 "''main.c''" 4 "[]" thread_start, THEN conjunct2, THEN conjunct2, THEN mp, OF x0]
  from caught_block_run obtain th
    where x: "exec_list [Try (defers [(1, 10)] ''main.c'' 6 @ [Throw 3 (Some ''parse'') ''main.c'' 8]) []]
       thread_start = Some (Fallthrough, th)"
    by (elim exE conjE) (rule that; assumption)
  note k = C9_defer_outside_scope_stays_in_bounds
    [of 1 10 "''main.c''" 12
      "[Try (defers [(1, 10)] ''main.c'' 6 @ [Throw 3 (Some ''parse'') ''main.c'' 8]) []]" th,
      THEN conjunct2, THEN conjunct2, THEN mp, OF x]
  show ?thesis unfolding x using k k0 i0 by (simp add: start_idx)
qed

end
